theory Spec2Isabelle
  imports Complex_Main
begin

section \<open>Data model\<close>

text \<open>
  Node ids are JavaScript strings. Numbers that hold times, volumes and gains are modelled
  as reals: the code only compares them, takes minima and maxima and subtracts clock
  readings. File sizes are natural numbers.

  Web Audio objects have identity and are mutated in place (\<^verbatim>\<open>source.stop()\<close>,
  \<^verbatim>\<open>gain.value = ...\<close>), so they live in explicit stores: a reference is an index into
  a list, and creating an object appends to the list.
\<close>

type_synonym node_id = string
type_synonym source_ref = nat
type_synonym gain_ref = nat

text \<open>\<^verbatim>\<open>AudioBuffer\<close>: the transport code reads only its duration.\<close>

record audio_buffer =
  duration :: real

text \<open>
  \<^verbatim>\<open>AudioBufferSourceNode\<close>, a single-use playback unit. \<open>started\<close> is the offset
  given to \<^verbatim>\<open>start\<close> (\<open>None\<close> before the call), \<open>stopped\<close> says that the unit
  no longer sounds, \<open>onended\<close> is the node id captured by the handler assigned to
  \<^verbatim>\<open>source.onended\<close>.
\<close>

record buffer_source =
  buffer :: audio_buffer
  loop :: bool
  destination :: "gain_ref option"
  started :: "real option"
  stopped :: bool
  onended :: "node_id option"

text \<open>\<^verbatim>\<open>GainNode\<close>: its \<^verbatim>\<open>gain.value\<close> and the gain stage it feeds, if any.\<close>

record gain_node =
  gain_value :: real
  gain_output :: "gain_ref option"

datatype context_state = Suspended | Running

record audio_context =
  currentTime :: real
  ctx_state :: context_state

text \<open>\<^verbatim>\<open>interface NodePlaybackState\<close> of AudioEngine.ts.\<close>

record NodePlaybackState =
  source :: "source_ref option"
  gainNode :: gain_ref
  isPlaying :: bool
  isPaused :: bool
  startTime :: real
  pauseTime :: real
  volume :: real
  isMuted :: bool

text \<open>\<^verbatim>\<open>class AudioEngine\<close>: its five fields and the two object stores.\<close>

record AudioEngine =
  audioContext :: "audio_context option"
  masterGain :: "gain_ref option"
  activeNodes :: "node_id \<rightharpoonup> source_ref"
  nodeStates :: "node_id \<rightharpoonup> NodePlaybackState"
  isInitialized :: bool
  sources :: "buffer_source list"
  gains :: "gain_node list"

text \<open>\<^verbatim>\<open>interface AudioNode\<close> of the types module (\<open>id\<close>, \<open>x\<close>, \<open>y\<close> renamed).\<close>

record AudioNode =
  node_ident :: node_id
  pos_x :: real
  pos_y :: real
  audioBuffer :: "audio_buffer option"
  fileName :: string
  node_isPlaying :: bool
  connections :: "node_id list"
  color :: string

text \<open>\<^verbatim>\<open>class NodeManager\<close>: the engine it drives and its table of nodes.\<close>

record NodeManager =
  audioEngine :: AudioEngine
  nodes :: "node_id \<rightharpoonup> AudioNode"

text \<open>A browser \<^verbatim>\<open>File\<close>: name, byte size and declared MIME type.\<close>

record audio_file =
  file_name :: string
  file_size :: nat
  file_type :: string

section \<open>utils/fileHandling.ts\<close>

record validation =
  isValid :: bool
  error :: "string option"

definition maxSize :: nat where
  "maxSize = 30 * 1024 * 1024"

definition allowedTypes :: "string list" where
  "allowedTypes = [''audio/mpeg'', ''audio/wav'', ''audio/mp4'', ''audio/ogg'', ''audio/aac'']"

definition validateAudioFile :: "audio_file \<Rightarrow> validation" where
  "validateAudioFile f =
     (if file_size f > maxSize then
        \<lparr>isValid = False, error = Some ''File too large. Maximum size is 30MB.''\<rparr>
      else if file_type f \<notin> set allowedTypes then
        \<lparr>isValid = False,
         error = Some ''Unsupported file format. Please use MP3, WAV, M4A, OGG, or AAC.''\<rparr>
      else \<lparr>isValid = True, error = None\<rparr>)"

section \<open>audio/AudioEngine.ts\<close>

definition new_AudioEngine :: AudioEngine where
  "new_AudioEngine =
     \<lparr>audioContext = None, masterGain = None, activeNodes = Map.empty,
      nodeStates = Map.empty, isInitialized = False, sources = [], gains = []\<rparr>"

text \<open>
  \<^verbatim>\<open>initialize\<close>. The platform decides whether an \<^verbatim>\<open>AudioContext\<close> can be constructed
  and in which state it starts: \<open>platform = None\<close> makes the constructor throw.
\<close>

definition initialize :: "context_state option \<Rightarrow> AudioEngine \<Rightarrow> string + AudioEngine" where
  "initialize platform e =
     (if isInitialized e then Inr e
      else case platform of
        None \<Rightarrow> Inl ''Audio not supported in this browser''
      | Some st \<Rightarrow>
          Inr (e\<lparr>audioContext := Some \<lparr>currentTime = 0, ctx_state = st\<rparr>,
                 masterGain := Some (length (gains e)),
                 gains := gains e @ [\<lparr>gain_value = 0.7, gain_output = None\<rparr>],
                 isInitialized := True\<rparr>))"

text \<open>
  \<^verbatim>\<open>loadAudioFile\<close>. \<open>decode\<close> stands for the platform's \<^verbatim>\<open>decodeAudioData\<close>;
  \<open>None\<close> is a rejected decode.
\<close>

definition loadAudioFile ::
  "(audio_file \<Rightarrow> audio_buffer option) \<Rightarrow> AudioEngine \<Rightarrow> audio_file \<Rightarrow> string + audio_buffer" where
  "loadAudioFile decode e f =
     (case audioContext e of
        None \<Rightarrow> Inl ''Audio engine not initialized''
      | Some _ \<Rightarrow>
          (case decode f of
             None \<Rightarrow> Inl ''Invalid audio file format''
           | Some b \<Rightarrow> Inr b))"

definition resumeContext :: "AudioEngine \<Rightarrow> AudioEngine" where
  "resumeContext e =
     (case audioContext e of
        Some c \<Rightarrow>
          (if ctx_state c = Suspended then e\<lparr>audioContext := Some (c\<lparr>ctx_state := Running\<rparr>)\<rparr>
           else e)
      | None \<Rightarrow> e)"

text \<open>\<^verbatim>\<open>source.stop()\<close>; the callers catch and log whatever the call throws.\<close>

definition stop_source :: "buffer_source list \<Rightarrow> source_ref \<Rightarrow> buffer_source list" where
  "stop_source srcs s = (if s < length srcs then srcs[s := (srcs ! s)\<lparr>stopped := True\<rparr>] else srcs)"

definition stopNode :: "AudioEngine \<Rightarrow> node_id \<Rightarrow> AudioEngine" where
  "stopNode e n =
     (let e1 = (case activeNodes e n of
                  Some s \<Rightarrow> e\<lparr>sources := stop_source (sources e) s,
                              activeNodes := (activeNodes e)(n := None)\<rparr>
                | None \<Rightarrow> e)
      in case nodeStates e1 n of
           Some st \<Rightarrow>
             e1\<lparr>nodeStates := (nodeStates e1)(n \<mapsto>
                   st\<lparr>isPlaying := False, isPaused := False, source := None\<rparr>)\<rparr>
         | None \<Rightarrow> e1)"

text \<open>
  \<^verbatim>\<open>playAudioBuffer\<close>. The node's state record is created on the first play and
  reused afterwards; the source and the gain stage are fresh on every call.
\<close>

definition playAudioBuffer :: "AudioEngine \<Rightarrow> node_id \<Rightarrow> audio_buffer \<Rightarrow> bool \<Rightarrow> AudioEngine" where
  "playAudioBuffer e n buf lp =
     (case (audioContext e, masterGain e) of
        (Some ctx, Some master) \<Rightarrow>
          (let e1 = stopNode e n;
               s = length (sources e1);
               g = length (gains e1);
               src = \<lparr>buffer = buf, loop = lp, destination = Some g, started = Some 0,
                      stopped = False, onended = Some n\<rparr>;
               st0 = (case nodeStates e1 n of
                        None \<Rightarrow> \<lparr>source = None, gainNode = g, isPlaying = False,
                                   isPaused = False, startTime = 0, pauseTime = 0,
                                   volume = 1, isMuted = False\<rparr>
                      | Some st \<Rightarrow> st);
               st1 = st0\<lparr>source := Some s, gainNode := g, isPlaying := True,
                          isPaused := False, startTime := currentTime ctx, pauseTime := 0\<rparr>
           in e1\<lparr>sources := sources e1 @ [src],
                  gains := gains e1 @ [\<lparr>gain_value = 1, gain_output = Some master\<rparr>],
                  nodeStates := (nodeStates e1)(n \<mapsto> st1),
                  activeNodes := (activeNodes e1)(n \<mapsto> s)\<rparr>)
      | _ \<Rightarrow> e)"

definition pauseNode :: "AudioEngine \<Rightarrow> node_id \<Rightarrow> AudioEngine" where
  "pauseNode e n =
     (case nodeStates e n of
        Some st \<Rightarrow>
          (if isPlaying st \<and> \<not> isPaused st then
             e\<lparr>sources := (case source st of
                              Some s \<Rightarrow> stop_source (sources e) s
                            | None \<Rightarrow> sources e),
               nodeStates := (nodeStates e)(n \<mapsto>
                  st\<lparr>isPaused := True, isPlaying := False,
                     pauseTime := (case audioContext e of
                                     Some ctx \<Rightarrow> currentTime ctx
                                   | None \<Rightarrow> 0)\<rparr>),
               activeNodes := (activeNodes e)(n := None)\<rparr>
           else e)
      | None \<Rightarrow> e)"

text \<open>
  \<^verbatim>\<open>resumeNode\<close>. The new source is connected to the node's existing gain stage and
  its \<^verbatim>\<open>loop\<close> property keeps the platform default \<^verbatim>\<open>false\<close>.
\<close>

definition resumeNode :: "AudioEngine \<Rightarrow> node_id \<Rightarrow> audio_buffer \<Rightarrow> AudioEngine" where
  "resumeNode e n buf =
     (case (nodeStates e n, audioContext e, masterGain e) of
        (Some st, Some ctx, Some master) \<Rightarrow>
          (if isPaused st then
             (let elapsedTime = pauseTime st - startTime st;
                  s = length (sources e);
                  startOffset = max 0 (min elapsedTime (duration buf));
                  meaningful = (startOffset > 0.01 \<and> startOffset < duration buf);
                  src = \<lparr>buffer = buf, loop = False, destination = Some (gainNode st),
                         started = Some (if meaningful then startOffset else 0),
                         stopped = False, onended = Some n\<rparr>;
                  st1 = st\<lparr>source := Some s, isPlaying := True, isPaused := False,
                           startTime := (if meaningful then currentTime ctx - elapsedTime
                                         else currentTime ctx)\<rparr>
              in e\<lparr>sources := sources e @ [src],
                    nodeStates := (nodeStates e)(n \<mapsto> st1),
                    activeNodes := (activeNodes e)(n \<mapsto> s)\<rparr>)
           else e)
      | _ \<Rightarrow> e)"

text \<open>
  The body of the handler that \<^verbatim>\<open>playAudioBuffer\<close> and \<^verbatim>\<open>resumeNode\<close> assign to
  \<^verbatim>\<open>source.onended\<close>. It closes over the node id and the node's state record, never
  over the source it was assigned to.
\<close>

definition onended_handler :: "AudioEngine \<Rightarrow> node_id \<Rightarrow> AudioEngine" where
  "onended_handler e n =
     e\<lparr>activeNodes := (activeNodes e)(n := None),
       nodeStates := (case nodeStates e n of
                        Some st \<Rightarrow> (nodeStates e)(n \<mapsto> st\<lparr>isPlaying := False, source := None\<rparr>)
                      | None \<Rightarrow> nodeStates e)\<rparr>"

text \<open>
  The platform's side of \<^verbatim>\<open>onended\<close>: Web Audio dispatches the \<^verbatim>\<open>ended\<close> event of
  a source once that source has stopped sounding, whether it played its buffer to the end
  or \<^verbatim>\<open>stop()\<close> was called on it. The event is delivered as a later task, after the
  code that called \<^verbatim>\<open>stop()\<close> has run to completion.
\<close>

definition ended_event :: "AudioEngine \<Rightarrow> source_ref \<Rightarrow> AudioEngine" where
  "ended_event e s =
     (if s < length (sources e) then
        (let e1 = e\<lparr>sources := stop_source (sources e) s\<rparr>
         in case onended (sources e ! s) of
              Some n \<Rightarrow> onended_handler e1 n
            | None \<Rightarrow> e1)
      else e)"

definition isNodePaused :: "AudioEngine \<Rightarrow> node_id \<Rightarrow> bool" where
  "isNodePaused e n = (case nodeStates e n of Some st \<Rightarrow> isPaused st | None \<Rightarrow> False)"

definition isNodePlaying :: "AudioEngine \<Rightarrow> node_id \<Rightarrow> bool" where
  "isNodePlaying e n = (activeNodes e n \<noteq> None)"

definition set_gain :: "gain_node list \<Rightarrow> gain_ref \<Rightarrow> real \<Rightarrow> gain_node list" where
  "set_gain gs g v = (if g < length gs then gs[g := (gs ! g)\<lparr>gain_value := v\<rparr>] else gs)"

definition setNodeVolume :: "AudioEngine \<Rightarrow> node_id \<Rightarrow> real \<Rightarrow> AudioEngine" where
  "setNodeVolume e n v =
     (case nodeStates e n of
        Some st \<Rightarrow>
          (let st1 = st\<lparr>volume := max 0 (min 1 v)\<rparr>
           in e\<lparr>nodeStates := (nodeStates e)(n \<mapsto> st1),
                 gains := set_gain (gains e) (gainNode st1)
                            (if isMuted st1 then 0 else volume st1)\<rparr>)
      | None \<Rightarrow> e)"

definition muteNode :: "AudioEngine \<Rightarrow> node_id \<Rightarrow> AudioEngine" where
  "muteNode e n =
     (case nodeStates e n of
        Some st \<Rightarrow>
          e\<lparr>nodeStates := (nodeStates e)(n \<mapsto> st\<lparr>isMuted := True\<rparr>),
            gains := set_gain (gains e) (gainNode st) 0\<rparr>
      | None \<Rightarrow> e)"



text \<open>The value of \<^verbatim>\<open>nodeState.gainNode.gain.value\<close> for a node that has a state record.\<close>

definition node_gain :: "AudioEngine \<Rightarrow> node_id \<Rightarrow> real option" where
  "node_gain e n =
     (case nodeStates e n of
        Some st \<Rightarrow> (if gainNode st < length (gains e)
                    then Some (gain_value (gains e ! gainNode st)) else None)
      | None \<Rightarrow> None)"

section \<open>audio/NodeManager.ts\<close>

definition new_NodeManager :: "AudioEngine \<Rightarrow> NodeManager" where
  "new_NodeManager e = \<lparr>audioEngine = e, nodes = Map.empty\<rparr>"

text \<open>
  \<^verbatim>\<open>createNode\<close>. The id (a time stamp and a random suffix) and the colour (a random
  pick) come from the environment.
\<close>

definition createNode ::
  "(audio_file \<Rightarrow> audio_buffer option) \<Rightarrow> node_id \<Rightarrow> string \<Rightarrow> NodeManager \<Rightarrow> audio_file
     \<Rightarrow> real \<Rightarrow> real \<Rightarrow> string + (AudioNode \<times> NodeManager)" where
  "createNode decode new_id col nm f px py =
     (case loadAudioFile decode (audioEngine nm) f of
        Inl err \<Rightarrow> Inl err
      | Inr audio \<Rightarrow>
          (let node = \<lparr>node_ident = new_id, pos_x = px, pos_y = py, audioBuffer = Some audio,
                        fileName = file_name f, node_isPlaying = False, connections = [],
                        color = col\<rparr>
           in Inr (node, nm\<lparr>nodes := (nodes nm)(new_id \<mapsto> node)\<rparr>)))"

text \<open>\<^verbatim>\<open>updateNodeState\<close>: the partial update is a function on the node record.\<close>

definition updateNodeState :: "NodeManager \<Rightarrow> node_id \<Rightarrow> (AudioNode \<Rightarrow> AudioNode) \<Rightarrow> NodeManager" where
  "updateNodeState nm n updates =
     (case nodes nm n of
        Some node \<Rightarrow> nm\<lparr>nodes := (nodes nm)(n \<mapsto> updates node)\<rparr>
      | None \<Rightarrow> nm)"

text \<open>The body of the \<^verbatim>\<open>forEach\<close> in \<^verbatim>\<open>NodeManager.playNode\<close>.\<close>

definition play_connected :: "bool \<Rightarrow> NodeManager \<Rightarrow> node_id \<Rightarrow> NodeManager" where
  "play_connected lp nm c =
     (case nodes nm c of
        Some connectedNode \<Rightarrow>
          (case audioBuffer connectedNode of
             Some audio \<Rightarrow>
               (if \<not> node_isPlaying connectedNode then
                  updateNodeState
                    (nm\<lparr>audioEngine := playAudioBuffer (audioEngine nm) c audio lp\<rparr>)
                    c (\<lambda>node. node\<lparr>node_isPlaying := True\<rparr>)
                else nm)
           | None \<Rightarrow> nm)
      | None \<Rightarrow> nm)"

definition nm_playNode :: "NodeManager \<Rightarrow> node_id \<Rightarrow> bool \<Rightarrow> NodeManager" where
  "nm_playNode nm n lp =
     (case nodes nm n of
        None \<Rightarrow> nm
      | Some node \<Rightarrow>
          (case audioBuffer node of
             None \<Rightarrow> nm
           | Some audio \<Rightarrow>
               foldl (play_connected lp)
                 (updateNodeState
                    (nm\<lparr>audioEngine := playAudioBuffer (audioEngine nm) n audio lp\<rparr>)
                    n (\<lambda>node. node\<lparr>node_isPlaying := True\<rparr>))
                 (connections node)))"

text \<open>The body of the \<^verbatim>\<open>forEach\<close> in \<^verbatim>\<open>NodeManager.stopNode\<close>.\<close>

definition stop_connected :: "NodeManager \<Rightarrow> node_id \<Rightarrow> NodeManager" where
  "stop_connected nm c =
     updateNodeState (nm\<lparr>audioEngine := stopNode (audioEngine nm) c\<rparr>)
       c (\<lambda>node. node\<lparr>node_isPlaying := False\<rparr>)"

definition nm_stopNode :: "NodeManager \<Rightarrow> node_id \<Rightarrow> NodeManager" where
  "nm_stopNode nm n =
     (let nm1 = updateNodeState (nm\<lparr>audioEngine := stopNode (audioEngine nm) n\<rparr>)
                  n (\<lambda>node. node\<lparr>node_isPlaying := False\<rparr>)
      in case nodes nm1 n of
           Some node \<Rightarrow> foldl stop_connected nm1 (connections node)
         | None \<Rightarrow> nm1)"

text \<open>
  \<^verbatim>\<open>connectNodes\<close>. Both pushes go through the table, so that for equal ids the second
  push sees the first, as it does on the one shared object.
\<close>

definition connectNodes :: "NodeManager \<Rightarrow> node_id \<Rightarrow> node_id \<Rightarrow> NodeManager" where
  "connectNodes nm fromNodeId toNodeId =
     (case (nodes nm fromNodeId, nodes nm toNodeId) of
        (Some fromNode, Some toNode) \<Rightarrow>
          (if toNodeId \<notin> set (connections fromNode) then
             updateNodeState
               (updateNodeState nm fromNodeId
                  (\<lambda>node. node\<lparr>connections := connections node @ [toNodeId]\<rparr>))
               toNodeId (\<lambda>node. node\<lparr>connections := connections node @ [fromNodeId]\<rparr>)
           else nm)
      | _ \<Rightarrow> nm)"

definition disconnectNodes :: "NodeManager \<Rightarrow> node_id \<Rightarrow> node_id \<Rightarrow> NodeManager" where
  "disconnectNodes nm fromNodeId toNodeId =
     updateNodeState
       (updateNodeState nm fromNodeId
          (\<lambda>node. node\<lparr>connections := filter (\<lambda>i. i \<noteq> toNodeId) (connections node)\<rparr>))
       toNodeId (\<lambda>node. node\<lparr>connections := filter (\<lambda>i. i \<noteq> fromNodeId) (connections node)\<rparr>)"

text \<open>
  \<^verbatim>\<open>removeNode\<close>. The \<^verbatim>\<open>forEach\<close> runs over the array the node held when the loop
  began: \<^verbatim>\<open>disconnectNodes\<close> assigns filtered copies and leaves that array as it was.
\<close>

definition removeNode :: "NodeManager \<Rightarrow> node_id \<Rightarrow> NodeManager" where
  "removeNode nm n =
     (case nodes nm n of
        None \<Rightarrow> nm
      | Some node \<Rightarrow>
          (let nm1 = nm_stopNode nm n;
               nm2 = foldl (\<lambda>m connectedId. disconnectNodes m n connectedId) nm1
                       (connections node)
           in nm2\<lparr>nodes := (nodes nm2)(n := None)\<rparr>))"

definition getNode :: "NodeManager \<Rightarrow> node_id \<Rightarrow> AudioNode option" where
  "getNode nm n = nodes nm n"

section \<open>The upload handler of the application component\<close>

text \<open>
  The application holds the node manager (and through it the engine) and shows alerts.
  Its canvas state is React state of the presentation layer; what \<^verbatim>\<open>handleFileUpload\<close>
  reads from it, the ids and connection lists of the nodes already on the canvas, is the
  argument \<open>prev_nodes\<close>.
\<close>

record App =
  nodeManager :: NodeManager
  alerts :: "string option list"

datatype upload_result = Rejected App | Failed string App | Uploaded App

text \<open>
  The state updater of \<^verbatim>\<open>handleFileUpload\<close>, as far as it acts on the node manager: with
  at least two nodes on the canvas it connects every earlier node to the new one and then
  assigns the collected ids to \<^verbatim>\<open>newNode.connections\<close>, the object the manager holds.
\<close>

definition autoConnect ::
  "NodeManager \<Rightarrow> node_id \<Rightarrow> (node_id \<times> node_id list) list \<Rightarrow> NodeManager" where
  "autoConnect nm newId prev_nodes =
     (if length prev_nodes + 1 \<ge> 2 then
        (let connectionsToAdd = map fst (filter (\<lambda>(i, cs). newId \<notin> set cs) prev_nodes)
         in updateNodeState
              (foldl (\<lambda>m existingId. connectNodes m existingId newId) nm connectionsToAdd)
              newId (\<lambda>node. node\<lparr>connections := connectionsToAdd\<rparr>))
      else nm)"

definition handleFileUpload ::
  "(audio_file \<Rightarrow> audio_buffer option) \<Rightarrow> node_id \<Rightarrow> string \<Rightarrow> (node_id \<times> node_id list) list
     \<Rightarrow> App \<Rightarrow> audio_file \<Rightarrow> real \<Rightarrow> real \<Rightarrow> upload_result" where
  "handleFileUpload decode new_id col prev_nodes app f px py =
     (let validation = validateAudioFile f
      in if \<not> isValid validation then
           Rejected (app\<lparr>alerts := alerts app @ [error validation]\<rparr>)
         else
           (let nm0 = (nodeManager app)\<lparr>audioEngine :=
                         resumeContext (audioEngine (nodeManager app))\<rparr>
            in case createNode decode new_id col nm0 f px py of
                 Inl err \<Rightarrow> Failed err (app\<lparr>nodeManager := nm0\<rparr>)
               | Inr (newNode, nm1) \<Rightarrow>
                   Uploaded (app\<lparr>nodeManager :=
                               autoConnect nm1 (node_ident newNode) prev_nodes\<rparr>)))"

section \<open>The export dialog\<close>

text \<open>A recorded \<^verbatim>\<open>Blob\<close>: its content type and size.\<close>

record blob =
  blob_type :: string
  blob_size :: nat

text \<open>\<^verbatim>\<open>String.prototype.includes\<close>.\<close>

fun str_includes :: "string \<Rightarrow> string \<Rightarrow> bool" where
  "str_includes [] sub = (sub = [])"
| "str_includes (c # cs) sub = (take (length sub) (c # cs) = sub \<or> str_includes cs sub)"

text \<open>
  \<^verbatim>\<open>toISOString().slice(0, 19).replace(/[:.]/g, '-')\<close>, applied to the ISO string of the
  current date, which the environment supplies.
\<close>

definition timestamp_of :: "string \<Rightarrow> string" where
  "timestamp_of isoString =
     map (\<lambda>c. if c = CHR '':'' \<or> c = CHR ''.'' then CHR ''-'' else c) (take 19 isoString)"

text \<open>The extension detected from the blob type, with the fallback of the source.\<close>

definition detect_extension :: "string \<Rightarrow> string" where
  "detect_extension t =
     (if str_includes t ''webm'' then ''webm''
      else if str_includes t ''mp4'' then ''mp4''
      else if str_includes t ''wav'' then ''wav''
      else ''webm'')"

datatype preferred_format = Original | Rename

text \<open>
  \<^verbatim>\<open>downloadAudio\<close> of the export dialog with format detection; the result is the
  file name given to the download link, \<open>None\<close> when there is no blob.
\<close>

definition downloadAudio ::
  "blob option \<Rightarrow> string \<Rightarrow> string \<Rightarrow> preferred_format option \<Rightarrow> string option" where
  "downloadAudio audioBlob sessionName isoString preferredFormat =
     (case audioBlob of
        None \<Rightarrow> None
      | Some b \<Rightarrow>
          (let extension = detect_extension (blob_type b);
               displayExtension =
                 (if preferredFormat = Some Rename \<and> extension = ''webm'' then ''wav''
                  else extension)
           in Some (sessionName @ ''-'' @ timestamp_of isoString @ ''.'' @ displayExtension)))"

datatype export_format = Webm | Wav

text \<open>\<^verbatim>\<open>downloadAudio\<close> of the other export dialog, which takes the format from the button.\<close>

definition downloadAudio_by_format ::
  "blob option \<Rightarrow> string \<Rightarrow> string \<Rightarrow> export_format \<Rightarrow> string option" where
  "downloadAudio_by_format audioBlob sessionName isoString fmt =
     (case audioBlob of
        None \<Rightarrow> None
      | Some b \<Rightarrow>
          (let extension = (if fmt = Wav then ''wav'' else ''webm'')
           in Some (sessionName @ ''-'' @ timestamp_of isoString @ ''.'' @ extension)))"

section \<open>audio/IndividualPlaybackManager.ts\<close>

text \<open>
  \<^verbatim>\<open>IndividualNodeState\<close>, with the fields the manager reads and writes. An interval
  registered by \<^verbatim>\<open>startTimeTracking\<close> is a record of what its callback closes over;
  \<open>cleared\<close> says that \<^verbatim>\<open>clearInterval\<close> was called on it. A handle is an index into
  the list of intervals, and every handle counts as truthy, as the positive handles of the
  browser do.
\<close>

record IndividualNodeState =
  ind_isPlaying :: bool
  ind_isPaused :: bool
  ind_currentTime :: real
  audioSource :: "source_ref option"
  pausedAt :: "real option"

record time_tracker =
  tracked_node :: node_id
  tracker_startTime :: real
  startRealTime :: real
  cleared :: bool

record IndividualPlaybackManager =
  ipm_nodeStates :: "node_id \<rightharpoonup> IndividualNodeState"
  ipm_audioContext :: audio_context
  ipm_masterGain :: gain_ref
  timeTrackers :: "node_id \<rightharpoonup> nat"
  ipm_sources :: "buffer_source list"
  ipm_gains :: "gain_node list"
  intervals :: "time_tracker list"

definition initializeNode :: "IndividualPlaybackManager \<Rightarrow> node_id \<Rightarrow> IndividualPlaybackManager" where
  "initializeNode m n =
     m\<lparr>ipm_nodeStates := (ipm_nodeStates m)(n \<mapsto>
          \<lparr>ind_isPlaying = False, ind_isPaused = False, ind_currentTime = 0,
           audioSource = None, pausedAt = None\<rparr>)\<rparr>"

definition clear_interval :: "time_tracker list \<Rightarrow> nat \<Rightarrow> time_tracker list" where
  "clear_interval ivs t = (if t < length ivs then ivs[t := (ivs ! t)\<lparr>cleared := True\<rparr>] else ivs)"

text \<open>The steps shared by \<^verbatim>\<open>pauseNode\<close> and \<^verbatim>\<open>stopNode\<close>: stop the source, clear the tracker.\<close>

definition stop_and_untrack ::
  "IndividualPlaybackManager \<Rightarrow> node_id \<Rightarrow> IndividualNodeState \<Rightarrow> IndividualPlaybackManager" where
  "stop_and_untrack m n state =
     (let m1 = (case audioSource state of
                  Some s \<Rightarrow> m\<lparr>ipm_sources := stop_source (ipm_sources m) s\<rparr>
                | None \<Rightarrow> m)
      in case timeTrackers m1 n of
           Some t \<Rightarrow> m1\<lparr>intervals := clear_interval (intervals m1) t,
                        timeTrackers := (timeTrackers m1)(n := None)\<rparr>
         | None \<Rightarrow> m1)"

definition ipm_stopNode :: "IndividualPlaybackManager \<Rightarrow> node_id \<Rightarrow> IndividualPlaybackManager" where
  "ipm_stopNode m n =
     (case ipm_nodeStates m n of
        None \<Rightarrow> m
      | Some state \<Rightarrow>
          (let m1 = stop_and_untrack m n state
           in m1\<lparr>ipm_nodeStates := (ipm_nodeStates m1)(n \<mapsto>
                   state\<lparr>ind_isPlaying := False, ind_isPaused := False, audioSource := None,
                         ind_currentTime := 0, pausedAt := None\<rparr>)\<rparr>))"

definition ipm_pauseNode :: "IndividualPlaybackManager \<Rightarrow> node_id \<Rightarrow> IndividualPlaybackManager" where
  "ipm_pauseNode m n =
     (case ipm_nodeStates m n of
        None \<Rightarrow> m
      | Some state \<Rightarrow>
          (if \<not> ind_isPlaying state then m
           else
             (let m1 = stop_and_untrack m n state
              in m1\<lparr>ipm_nodeStates := (ipm_nodeStates m1)(n \<mapsto>
                      state\<lparr>ind_isPlaying := False, ind_isPaused := True, audioSource := None,
                            pausedAt := Some (currentTime (ipm_audioContext m))\<rparr>)\<rparr>)))"

definition startTimeTracking ::
  "IndividualPlaybackManager \<Rightarrow> node_id \<Rightarrow> real \<Rightarrow> IndividualPlaybackManager" where
  "startTimeTracking m n start =
     (let ivs = (case timeTrackers m n of
                   Some t \<Rightarrow> clear_interval (intervals m) t
                 | None \<Rightarrow> intervals m)
      in m\<lparr>intervals := ivs @ [\<lparr>tracked_node = n, tracker_startTime = start,
                                 startRealTime = currentTime (ipm_audioContext m),
                                 cleared = False\<rparr>],
            timeTrackers := (timeTrackers m)(n \<mapsto> length ivs)\<rparr>)"

text \<open>
  \<^verbatim>\<open>playNode\<close> is an async function without an await: it runs to its end in one turn.
  Its promise is rejected when \<^verbatim>\<open>source.start\<close> throws, which it does for a negative
  offset; the state then stays as \<^verbatim>\<open>stopNode\<close> left it, with the unstarted source and
  its gain stage created. The new state record is built from \<^verbatim>\<open>state\<close>, the record read
  before \<^verbatim>\<open>stopNode\<close> ran.
\<close>

datatype play_outcome = Resolved IndividualPlaybackManager | RangeError IndividualPlaybackManager

definition ipm_playNode ::
  "IndividualPlaybackManager \<Rightarrow> node_id \<Rightarrow> audio_buffer \<Rightarrow> play_outcome" where
  "ipm_playNode m n buf =
     (case ipm_nodeStates m n of
        None \<Rightarrow> Resolved m
      | Some state \<Rightarrow>
          (let m1 = ipm_stopNode m n;
               s = length (ipm_sources m1);
               g = length (ipm_gains m1);
               src = \<lparr>buffer = buf, loop = False, destination = Some g, started = None,
                      stopped = False, onended = None\<rparr>;
               gn = \<lparr>gain_value = 1, gain_output = Some (ipm_masterGain m1)\<rparr>;
               start = (if ind_isPaused state then ind_currentTime state else 0);
               startOffset = (if ind_isPaused state then ind_currentTime state else 0)
           in if startOffset < 0 then
                RangeError (m1\<lparr>ipm_sources := ipm_sources m1 @ [src],
                               ipm_gains := ipm_gains m1 @ [gn]\<rparr>)
              else
                Resolved
                  (startTimeTracking
                     (m1\<lparr>ipm_sources := ipm_sources m1 @
                            [src\<lparr>started := Some startOffset, onended := Some n\<rparr>],
                          ipm_gains := ipm_gains m1 @ [gn],
                          ipm_nodeStates := (ipm_nodeStates m1)(n \<mapsto>
                            state\<lparr>ind_isPlaying := True, ind_isPaused := False,
                                  audioSource := Some s, ind_currentTime := start\<rparr>)\<rparr>)
                     n start)))"

text \<open>The state a call leaves behind, whether its promise was resolved or rejected.\<close>

fun after_play :: "play_outcome \<Rightarrow> IndividualPlaybackManager" where
  "after_play (Resolved m) = m"
| "after_play (RangeError m) = m"

text \<open>The callback of the interval \<open>t\<close>; a cleared interval no longer fires.\<close>

definition interval_tick :: "IndividualPlaybackManager \<Rightarrow> nat \<Rightarrow> IndividualPlaybackManager" where
  "interval_tick m t =
     (if t < length (intervals m) \<and> \<not> cleared (intervals m ! t) then
        (let tr = intervals m ! t;
             n = tracked_node tr;
             stale = m\<lparr>intervals := clear_interval (intervals m) t,
                       timeTrackers := (timeTrackers m)(n := None)\<rparr>
         in case ipm_nodeStates m n of
              None \<Rightarrow> stale
            | Some state \<Rightarrow>
                (if \<not> ind_isPlaying state then stale
                 else m\<lparr>ipm_nodeStates := (ipm_nodeStates m)(n \<mapsto>
                          state\<lparr>ind_currentTime := tracker_startTime tr +
                                   (currentTime (ipm_audioContext m) - startRealTime tr)\<rparr>)\<rparr>))
      else m)"

text \<open>The handler \<^verbatim>\<open>playNode\<close> assigns to \<^verbatim>\<open>source.onended\<close>.\<close>

definition ipm_onended_handler ::
  "IndividualPlaybackManager \<Rightarrow> node_id \<Rightarrow> IndividualPlaybackManager" where
  "ipm_onended_handler m n = ipm_stopNode m n"

definition toggleNode ::
  "IndividualPlaybackManager \<Rightarrow> node_id \<Rightarrow> audio_buffer \<Rightarrow> IndividualPlaybackManager" where
  "toggleNode m n buf =
     (case ipm_nodeStates m n of
        None \<Rightarrow> m
      | Some state \<Rightarrow>
          (if ind_isPlaying state then ipm_pauseNode m n else after_play (ipm_playNode m n buf)))"

text \<open>The clock of the audio context moves between turns.\<close>

definition ipm_clock :: "IndividualPlaybackManager \<Rightarrow> real \<Rightarrow> IndividualPlaybackManager" where
  "ipm_clock m t = m\<lparr>ipm_audioContext := (ipm_audioContext m)\<lparr>currentTime := t\<rparr>\<rparr>"

definition new_IndividualPlaybackManager :: "audio_context \<Rightarrow> gain_ref \<Rightarrow> IndividualPlaybackManager" where
  "new_IndividualPlaybackManager ctx master =
     \<lparr>ipm_nodeStates = Map.empty, ipm_audioContext = ctx, ipm_masterGain = master,
      timeTrackers = Map.empty, ipm_sources = [], ipm_gains = [], intervals = []\<rparr>"

section \<open>Runs of the engine\<close>

text \<open>
  A run is a sequence of calls into the engine and of events of the platform: the clock of
  the audio context moves, and the \<^verbatim>\<open>ended\<close> event of a source is delivered.
\<close>

definition advance_clock :: "AudioEngine \<Rightarrow> real \<Rightarrow> AudioEngine" where
  "advance_clock e t =
     (case audioContext e of
        Some ctx \<Rightarrow> e\<lparr>audioContext := Some (ctx\<lparr>currentTime := t\<rparr>)\<rparr>
      | None \<Rightarrow> e)"

datatype engine_event =
    Play node_id audio_buffer bool
  | Pause node_id
  | Stop node_id
  | Resume node_id audio_buffer
  | Clock real
  | Ended source_ref

fun engine_step :: "AudioEngine \<Rightarrow> engine_event \<Rightarrow> AudioEngine" where
  "engine_step e (Play n buf lp) = playAudioBuffer e n buf lp"
| "engine_step e (Pause n) = pauseNode e n"
| "engine_step e (Stop n) = stopNode e n"
| "engine_step e (Resume n buf) = resumeNode e n buf"
| "engine_step e (Clock t) = advance_clock e t"
| "engine_step e (Ended s) = ended_event e s"

definition engine_run :: "AudioEngine \<Rightarrow> engine_event list \<Rightarrow> AudioEngine" where
  "engine_run e evs = foldl engine_step e evs"

text \<open>A playback unit sounds from its start until it is stopped or has ended.\<close>

definition sounding :: "buffer_source \<Rightarrow> bool" where
  "sounding src = (started src \<noteq> None \<and> \<not> stopped src)"

text \<open>The live playback units of a node: the sounding sources created for it.\<close>

definition live_units :: "AudioEngine \<Rightarrow> node_id \<Rightarrow> source_ref list" where
  "live_units e n =
     filter (\<lambda>s. sounding (sources e ! s) \<and> onended (sources e ! s) = Some n)
       [0..<length (sources e)]"

text \<open>
  An \<^verbatim>\<open>ended\<close> event is timely when it arrives before a later unit has been registered
  for its node: the unit is still the registered one (it ended by itself), or no unit is
  registered (it was stopped and nothing was played since). A run is timely when all its
  \<^verbatim>\<open>ended\<close> events are.
\<close>

fun timely :: "AudioEngine \<Rightarrow> engine_event \<Rightarrow> bool" where
  "timely e (Ended s) =
     (s < length (sources e) \<and>
      (case onended (sources e ! s) of
         Some n \<Rightarrow> activeNodes e n = Some s \<or> activeNodes e n = None
       | None \<Rightarrow> False))"
| "timely e _ = True"

fun timely_run :: "AudioEngine \<Rightarrow> engine_event list \<Rightarrow> bool" where
  "timely_run e [] = True"
| "timely_run e (ev # evs) = (timely e ev \<and> timely_run (engine_step e ev) evs)"

text \<open>
  The bookkeeping the engine relies on: every sounding unit of a node is the one
  registered in \<^verbatim>\<open>activeNodes\<close>, a playing node's state record names that unit, and a
  paused node has no registered unit.
\<close>

definition units_tracked :: "AudioEngine \<Rightarrow> bool" where
  "units_tracked e =
     ((\<forall>s n. s < length (sources e) \<longrightarrow> sounding (sources e ! s) \<longrightarrow>
              onended (sources e ! s) = Some n \<longrightarrow> activeNodes e n = Some s)
      \<and> (\<forall>n st. nodeStates e n = Some st \<longrightarrow> isPlaying st \<longrightarrow>
              (\<exists>s. source st = Some s \<and> activeNodes e n = Some s))
      \<and> (\<forall>n st. nodeStates e n = Some st \<longrightarrow> isPaused st \<longrightarrow> activeNodes e n = None))"

text \<open>Every registered unit exists and was created for the node it is registered for.\<close>

definition units_owned :: "AudioEngine \<Rightarrow> bool" where
  "units_owned e =
     (\<forall>n s. activeNodes e n = Some s \<longrightarrow>
            s < length (sources e) \<and> onended (sources e ! s) = Some n)"

section \<open>Runs of the individual playback manager\<close>

text \<open>The platform delivers the \<^verbatim>\<open>ended\<close> event of a source: the handler runs.\<close>

definition ipm_ended_event ::
  "IndividualPlaybackManager \<Rightarrow> source_ref \<Rightarrow> IndividualPlaybackManager" where
  "ipm_ended_event m s =
     (if s < length (ipm_sources m) then
        (let m1 = m\<lparr>ipm_sources := stop_source (ipm_sources m) s\<rparr>
         in case onended (ipm_sources m ! s) of
              Some n \<Rightarrow> ipm_onended_handler m1 n
            | None \<Rightarrow> m1)
      else m)"

datatype ipm_event =
    IPlay node_id audio_buffer
  | IPause node_id
  | IStop node_id
  | IToggle node_id audio_buffer
  | ITick nat
  | IClock real
  | IEnded source_ref

fun ipm_step :: "IndividualPlaybackManager \<Rightarrow> ipm_event \<Rightarrow> IndividualPlaybackManager" where
  "ipm_step m (IPlay n buf) = after_play (ipm_playNode m n buf)"
| "ipm_step m (IPause n) = ipm_pauseNode m n"
| "ipm_step m (IStop n) = ipm_stopNode m n"
| "ipm_step m (IToggle n buf) = toggleNode m n buf"
| "ipm_step m (ITick t) = interval_tick m t"
| "ipm_step m (IClock t) = ipm_clock m t"
| "ipm_step m (IEnded s) = ipm_ended_event m s"

definition ipm_run :: "IndividualPlaybackManager \<Rightarrow> ipm_event list \<Rightarrow> IndividualPlaybackManager" where
  "ipm_run m evs = foldl ipm_step m evs"

definition ipm_live_units :: "IndividualPlaybackManager \<Rightarrow> node_id \<Rightarrow> source_ref list" where
  "ipm_live_units m n =
     filter (\<lambda>s. sounding (ipm_sources m ! s) \<and> onended (ipm_sources m ! s) = Some n)
       [0..<length (ipm_sources m)]"

text \<open>Every sounding unit of a node is the one its state record names.\<close>

definition ipm_units_tracked :: "IndividualPlaybackManager \<Rightarrow> bool" where
  "ipm_units_tracked m =
     (\<forall>s n. s < length (ipm_sources m) \<longrightarrow> sounding (ipm_sources m ! s) \<longrightarrow>
             onended (ipm_sources m ! s) = Some n \<longrightarrow>
             (\<exists>st. ipm_nodeStates m n = Some st \<and> audioSource st = Some s))"

section \<open>Invariants of the connection graph\<close>

text \<open>Links point at existing nodes and are recorded on both sides.\<close>

definition links_symmetric :: "NodeManager \<Rightarrow> bool" where
  "links_symmetric nm =
     (\<forall>a node. nodes nm a = Some node \<longrightarrow>
        (\<forall>b \<in> set (connections node).
           \<exists>other. nodes nm b = Some other \<and> a \<in> set (connections other)))"

text \<open>No node lists another node twice.\<close>

definition links_simple :: "NodeManager \<Rightarrow> bool" where
  "links_simple nm =
     (\<forall>a node b. nodes nm a = Some node \<longrightarrow> b \<noteq> a \<longrightarrow> count_list (connections node) b \<le> 1)"

section \<open>The connection gesture of the application component\<close>

text \<open>
  \<^verbatim>\<open>handleConnectionStart\<close>, as far as it acts on the node manager. \<open>connect_mode\<close> says
  that the interaction mode is \<^verbatim>\<open>'connect'\<close>; the first component of the result is the
  new value of \<^verbatim>\<open>connectingNodeId\<close>.
\<close>

definition handleConnectionStart ::
  "bool \<Rightarrow> node_id option \<Rightarrow> NodeManager \<Rightarrow> node_id \<Rightarrow> node_id option \<times> NodeManager" where
  "handleConnectionStart connect_mode connectingNodeId nm nodeId =
     (if connect_mode then
        (case connectingNodeId of
           None \<Rightarrow> (Some nodeId, nm)
         | Some pending \<Rightarrow>
             (if pending \<noteq> nodeId then (None, connectNodes nm pending nodeId)
              else (None, nm)))
      else (connectingNodeId, nm))"

section \<open>Derived views\<close>

text \<open>The neighbour list of a node, if the node exists.\<close>

definition connections_of :: "NodeManager \<Rightarrow> node_id \<Rightarrow> node_id list option" where
  "connections_of nm a = map_option connections (nodes nm a)"

text \<open>
  A play of node \<open>b\<close> has taken effect: the manager flags the node as playing, and the
  engine holds for it a playing state record and a registered unit that was created at or
  after position \<open>base\<close> of the source store, with the given clip and loop flag, started
  at offset 0.
\<close>

definition play_effect ::
  "bool \<Rightarrow> audio_buffer \<Rightarrow> nat \<Rightarrow> NodeManager \<Rightarrow> node_id \<Rightarrow> bool" where
  "play_effect lp buf base nm b =
     (map_option node_isPlaying (nodes nm b) = Some True
      \<and> (\<exists>st s. nodeStates (audioEngine nm) b = Some st \<and> isPlaying st \<and> \<not> isPaused st
            \<and> source st = Some s \<and> activeNodes (audioEngine nm) b = Some s
            \<and> base \<le> s \<and> s < length (sources (audioEngine nm))
            \<and> loop (sources (audioEngine nm) ! s) = lp
            \<and> buffer (sources (audioEngine nm) ! s) = buf
            \<and> started (sources (audioEngine nm) ! s) = Some 0))"

text \<open>
  A stop of node \<open>b\<close> has taken effect: the engine has no registered unit for it, its
  state record (if any) is neither playing nor paused, and the manager's flag is off.
\<close>

definition stop_effect :: "NodeManager \<Rightarrow> node_id \<Rightarrow> bool" where
  "stop_effect nm b =
     (activeNodes (audioEngine nm) b = None
      \<and> (case nodeStates (audioEngine nm) b of
           Some st \<Rightarrow> \<not> isPlaying st \<and> \<not> isPaused st \<and> source st = None
         | None \<Rightarrow> True)
      \<and> (case nodes nm b of Some node \<Rightarrow> \<not> node_isPlaying node | None \<Rightarrow> True))"

section \<open>Sample states\<close>

text \<open>States reached by running the code, used to instantiate the theorems.\<close>

definition engine0 :: AudioEngine where
  "engine0 = (case initialize (Some Running) new_AudioEngine of Inr e \<Rightarrow> e | Inl _ \<Rightarrow> new_AudioEngine)"

definition clip :: audio_buffer where
  "clip = \<lparr>duration = 5\<rparr>"

text \<open>A node played once, muted, and set to volume 0.3.\<close>

definition muted_engine :: AudioEngine where
  "muted_engine = setNodeVolume (muteNode (playAudioBuffer engine0 ''a'' clip False) ''a'') ''a'' 0.3"

text \<open>A node played at clock 0 and paused at clock 2.\<close>

definition paused_engine :: AudioEngine where
  "paused_engine = engine_run engine0 [Play ''a'' clip False, Clock 2, Pause ''a'']"

text \<open>A manager with one node that was created and never played.\<close>

definition sample_manager :: NodeManager where
  "sample_manager =
     (case createNode (\<lambda>_. Some clip) ''a'' ''#ffffff'' (new_NodeManager engine0)
             \<lparr>file_name = ''a.wav'', file_size = 1000, file_type = ''audio/wav''\<rparr> 0 0 of
        Inr (_, nm) \<Rightarrow> nm
      | Inl _ \<Rightarrow> new_NodeManager engine0)"

text \<open>
  An individual playback manager with one node: played at clock 0, tracked by one tick at
  clock 0.1, paused at clock 0.15.
\<close>

definition ipm0 :: IndividualPlaybackManager where
  "ipm0 = initializeNode
            (new_IndividualPlaybackManager \<lparr>currentTime = 0, ctx_state = Running\<rparr> 0) ''a''"

definition playing_ipm :: IndividualPlaybackManager where
  "playing_ipm = after_play (ipm_playNode ipm0 ''a'' clip)"

definition paused_ipm :: IndividualPlaybackManager where
  "paused_ipm =
     ipm_pauseNode
       (ipm_clock (interval_tick (ipm_clock (after_play (ipm_playNode ipm0 ''a'' clip)) (1/10)) 0)
          (15/100))
       ''a''"

text \<open>A paused node of the individual playback manager whose stored time exceeds the clip.\<close>

definition stale_ipm :: IndividualPlaybackManager where
  "stale_ipm = ipm0\<lparr>ipm_nodeStates := (ipm_nodeStates ipm0)(''a'' \<mapsto>
       \<lparr>ind_isPlaying = False, ind_isPaused = True, ind_currentTime = 7,
        audioSource = None, pausedAt = Some 7\<rparr>)\<rparr>"

text \<open>A manager with two created nodes linked to each other.\<close>

definition two_nodes :: NodeManager where
  "two_nodes =
     (case createNode (\<lambda>_. Some clip) ''b'' ''#e5e7eb'' sample_manager
             \<lparr>file_name = ''b.wav'', file_size = 2000, file_type = ''audio/wav''\<rparr> 10 10 of
        Inr (_, nm) \<Rightarrow> nm
      | Inl _ \<Rightarrow> sample_manager)"

definition linked_manager :: NodeManager where
  "linked_manager = connectNodes two_nodes ''a'' ''b''"

text \<open>The linked manager after a group play on \<open>a\<close>: both nodes play.\<close>

definition playing_manager :: NodeManager where
  "playing_manager = nm_playNode linked_manager ''a'' False"

text \<open>Events of the platform reach the engine that the manager drives.\<close>

definition deliver :: "NodeManager \<Rightarrow> engine_event list \<Rightarrow> NodeManager" where
  "deliver nm evs = nm\<lparr>audioEngine := engine_run (audioEngine nm) evs\<rparr>"

text \<open>
  Both nodes played without loop, and both units ended by themselves: the engine was told,
  the manager was not.
\<close>

definition ended_manager :: NodeManager where
  "ended_manager = deliver (nm_playNode linked_manager ''a'' False) [Ended 0, Ended 1]"

text \<open>
  Group play on \<open>a\<close>, then on \<open>b\<close>, both looping; then the \<^verbatim>\<open>ended\<close> event of the
  unit of \<open>b\<close> that the second play replaced.
\<close>

definition orphan_manager :: NodeManager where
  "orphan_manager =
     deliver (nm_playNode (nm_playNode linked_manager ''a'' True) ''b'' True) [Ended 1]"

section \<open>Properties\<close>

subsection \<open>Upload validation\<close>

lemma validateAudioFile_valid_iff:
  "isValid (validateAudioFile f) \<longleftrightarrow> file_size f \<le> maxSize \<and> file_type f \<in> set allowedTypes"
  by (simp add: validateAudioFile_def)

lemma handleFileUpload_rejected:
  assumes "\<not> isValid (validateAudioFile f)"
  shows "handleFileUpload decode new_id col prev_nodes app f px py =
           Rejected (app\<lparr>alerts := alerts app @ [error (validateAudioFile f)]\<rparr>)"
  using assms by (simp add: handleFileUpload_def Let_def)

text \<open>
  Claim C8. A file of exactly 30 * 1024 * 1024 bytes with an allow-listed type passes
  validation. A file of one byte more is rejected with the file-too-large message,
  whatever its type. Whenever validation fails, \<^verbatim>\<open>handleFileUpload\<close> only shows the
  validation error: the decoder is not consulted (the result is the same for every
  decoder) and the node manager, so its table of nodes, is as it was.
\<close>

theorem validation_boundary_before_decode:
  "(file_size f = 30 * 1024 * 1024 \<and> file_type f \<in> set allowedTypes
      \<longrightarrow> validateAudioFile f = \<lparr>isValid = True, error = None\<rparr>)
   \<and> (file_size f = 30 * 1024 * 1024 + 1
      \<longrightarrow> validateAudioFile f =
            \<lparr>isValid = False, error = Some ''File too large. Maximum size is 30MB.''\<rparr>)
   \<and> (\<not> isValid (validateAudioFile f)
      \<longrightarrow> (\<forall>decode. handleFileUpload decode new_id col prev_nodes app f px py =
               Rejected (app\<lparr>alerts := alerts app @ [error (validateAudioFile f)]\<rparr>))
          \<and> nodeManager (app\<lparr>alerts := alerts app @ [error (validateAudioFile f)]\<rparr>)
              = nodeManager app)"
proof (intro conjI impI allI)
  assume "file_size f = 30 * 1024 * 1024 \<and> file_type f \<in> set allowedTypes"
  then show "validateAudioFile f = \<lparr>isValid = True, error = None\<rparr>"
    by (simp add: validateAudioFile_def maxSize_def)
next
  assume "file_size f = 30 * 1024 * 1024 + 1"
  then show "validateAudioFile f =
      \<lparr>isValid = False, error = Some ''File too large. Maximum size is 30MB.''\<rparr>"
    by (simp add: validateAudioFile_def maxSize_def)
next
  fix decode
  assume "\<not> isValid (validateAudioFile f)"
  then show "handleFileUpload decode new_id col prev_nodes app f px py =
      Rejected (app\<lparr>alerts := alerts app @ [error (validateAudioFile f)]\<rparr>)"
    by (rule handleFileUpload_rejected)
next
  show "nodeManager (app\<lparr>alerts := alerts app @ [error (validateAudioFile f)]\<rparr>)
          = nodeManager app"
    by simp
qed

theorem validation_boundary_before_decode_witness:
  "validateAudioFile \<lparr>file_name = ''a.wav'', file_size = 31457280, file_type = ''audio/wav''\<rparr>
     = \<lparr>isValid = True, error = None\<rparr>
   \<and> handleFileUpload (\<lambda>_. Some \<lparr>duration = 5\<rparr>) ''node_1'' ''#ffffff'' []
        \<lparr>nodeManager = new_NodeManager new_AudioEngine, alerts = []\<rparr>
        \<lparr>file_name = ''b.wav'', file_size = 31457281, file_type = ''audio/wav''\<rparr> 0 0
     = Rejected \<lparr>nodeManager = new_NodeManager new_AudioEngine,
                 alerts = [Some ''File too large. Maximum size is 30MB.'']\<rparr>"
  using validation_boundary_before_decode
          [where f = "\<lparr>file_name = ''a.wav'', file_size = 31457280, file_type = ''audio/wav''\<rparr>"]
        validation_boundary_before_decode
          [where f = "\<lparr>file_name = ''b.wav'', file_size = 31457281, file_type = ''audio/wav''\<rparr>"
             and new_id = "''node_1''" and col = "''#ffffff''" and prev_nodes = "[]"
             and app = "\<lparr>nodeManager = new_NodeManager new_AudioEngine, alerts = []\<rparr>"
             and px = 0 and py = 0]
  by (simp add: allowedTypes_def)

subsection \<open>Export file names\<close>

lemma timestamp_of_separators:
  "CHR '':'' \<notin> set (timestamp_of s) \<and> CHR ''.'' \<notin> set (timestamp_of s)
   \<and> length (timestamp_of s) \<le> 19"
  by (auto simp: timestamp_of_def)

lemma detect_extension_cases:
  "detect_extension t = ''webm'' \<or> detect_extension t = ''mp4'' \<or> detect_extension t = ''wav''"
  by (simp add: detect_extension_def)

text \<open>
  Claim C9 fails as stated. The ``rename'' download names a blob whose type is webm
  \<open>.wav\<close>; a blob of a type that is none of webm, mp4 and wav is named \<open>.webm\<close>; and
  the dialog that takes the format from the button names an mp4 blob \<open>.webm\<close>.
\<close>

theorem export_extension_counterexample:
  "detect_extension ''audio/webm'' = ''webm''
   \<and> downloadAudio (Some \<lparr>blob_type = ''audio/webm'', blob_size = 1000\<rparr>) ''note-composition''
        ''2025-01-02T03:04:05.678Z'' (Some Rename)
      = Some ''note-composition-2025-01-02T03-04-05.wav''
   \<and> downloadAudio (Some \<lparr>blob_type = ''audio/ogg'', blob_size = 1000\<rparr>) ''note-composition''
        ''2025-01-02T03:04:05.678Z'' (Some Original)
      = Some ''note-composition-2025-01-02T03-04-05.webm''
   \<and> downloadAudio_by_format (Some \<lparr>blob_type = ''audio/mp4'', blob_size = 1000\<rparr>)
        ''note-composition'' ''2025-01-02T03:04:05.678Z'' Webm
      = Some ''note-composition-2025-01-02T03-04-05.webm''"
  by (simp add: downloadAudio_def downloadAudio_by_format_def detect_extension_def
        timestamp_of_def)

text \<open>
  Claim C9 as amended. The file name is the session name, a hyphen, the first 19
  characters of the ISO time stamp with every colon and full stop replaced by a hyphen, a
  full stop and an extension. In the dialog with format detection the extension is the one
  detected from the blob's type (webm, mp4 or wav in that order of search, webm when none
  is found) unless ``rename'' was chosen and webm was detected, when it is wav. In the
  other dialog the extension is the format of the button, webm or wav, whatever the blob.
\<close>

theorem export_filename_shape:
  "downloadAudio (Some b) sessionName isoString pf =
     Some (sessionName @ ''-'' @ timestamp_of isoString @ ''.'' @
           (if pf = Some Rename \<and> detect_extension (blob_type b) = ''webm'' then ''wav''
            else detect_extension (blob_type b)))
   \<and> (pf \<noteq> Some Rename \<longrightarrow>
        downloadAudio (Some b) sessionName isoString pf =
          Some (sessionName @ ''-'' @ timestamp_of isoString @ ''.'' @
                detect_extension (blob_type b)))
   \<and> (str_includes (blob_type b) ''webm'' \<longrightarrow> detect_extension (blob_type b) = ''webm'')
   \<and> (\<not> str_includes (blob_type b) ''webm'' \<and> str_includes (blob_type b) ''mp4''
        \<longrightarrow> detect_extension (blob_type b) = ''mp4'')
   \<and> (\<not> str_includes (blob_type b) ''webm'' \<and> \<not> str_includes (blob_type b) ''mp4''
        \<and> str_includes (blob_type b) ''wav'' \<longrightarrow> detect_extension (blob_type b) = ''wav'')
   \<and> (\<not> str_includes (blob_type b) ''webm'' \<and> \<not> str_includes (blob_type b) ''mp4''
        \<and> \<not> str_includes (blob_type b) ''wav'' \<longrightarrow> detect_extension (blob_type b) = ''webm'')
   \<and> downloadAudio_by_format (Some b) sessionName isoString fmt =
       Some (sessionName @ ''-'' @ timestamp_of isoString @ ''.'' @
             (case fmt of Webm \<Rightarrow> ''webm'' | Wav \<Rightarrow> ''wav''))
   \<and> CHR '':'' \<notin> set (timestamp_of isoString) \<and> CHR ''.'' \<notin> set (timestamp_of isoString)
   \<and> timestamp_of isoString = map (\<lambda>c. if c = CHR '':'' \<or> c = CHR ''.'' then CHR ''-'' else c)
                                   (take 19 isoString)"
  using timestamp_of_separators [of isoString]
  by (cases fmt) (simp_all add: downloadAudio_def downloadAudio_by_format_def
        detect_extension_def Let_def timestamp_of_def)

theorem export_filename_shape_witness:
  "Some Original \<noteq> Some Rename
   \<and> str_includes ''audio/mp4'' ''mp4'' \<and> \<not> str_includes ''audio/mp4'' ''webm''
   \<and> downloadAudio (Some \<lparr>blob_type = ''audio/mp4'', blob_size = 1000\<rparr>) ''note-composition''
        ''2025-01-02T03:04:05.678Z'' (Some Original)
      = Some ''note-composition-2025-01-02T03-04-05.mp4''
   \<and> detect_extension ''audio/webm;codecs=opus'' = ''webm''
   \<and> detect_extension ''audio/wav'' = ''wav''
   \<and> detect_extension ''audio/ogg'' = ''webm''"
  using export_filename_shape
          [where b = "\<lparr>blob_type = ''audio/mp4'', blob_size = 1000\<rparr>"
             and sessionName = "''note-composition''"
             and isoString = "''2025-01-02T03:04:05.678Z''" and pf = "Some Original"]
        export_filename_shape
          [where b = "\<lparr>blob_type = ''audio/webm;codecs=opus'', blob_size = 1000\<rparr>"]
        export_filename_shape
          [where b = "\<lparr>blob_type = ''audio/wav'', blob_size = 1000\<rparr>"]
        export_filename_shape
          [where b = "\<lparr>blob_type = ''audio/ogg'', blob_size = 1000\<rparr>"]
  by (simp add: timestamp_of_def)

subsection \<open>Volume, mute and the gain stage\<close>

lemma stopNode_gains [simp]: "gains (stopNode e n) = gains e"
  by (simp add: stopNode_def Let_def split: option.splits)

lemma stopNode_context [simp]:
  "audioContext (stopNode e n) = audioContext e" "masterGain (stopNode e n) = masterGain e"
  by (simp_all add: stopNode_def Let_def split: option.splits)

lemma stopNode_state:
  "nodeStates (stopNode e n) n =
     map_option (\<lambda>st. st\<lparr>isPlaying := False, isPaused := False, source := None\<rparr>)
       (nodeStates e n)"
  by (simp add: stopNode_def Let_def split: option.splits)

text \<open>
  Claim C10. When a node that has a state record is played, the engine being
  initialised, its gain stage becomes a new gain node (one that did not exist before)
  with gain value 1, while the stored volume and mute flag stay as they were; the new
  source feeds that gain node. The stored values reach the gain stage again only with the
  next \<^verbatim>\<open>setNodeVolume\<close>.
\<close>

theorem play_resets_gain_stage:
  assumes "nodeStates e n = Some st"
    and "audioContext e = Some ctx" and "masterGain e = Some master"
  shows "\<exists>st'. nodeStates (playAudioBuffer e n buf lp) n = Some st'
           \<and> volume st' = volume st \<and> isMuted st' = isMuted st
           \<and> gainNode st' = length (gains e)
           \<and> gains (playAudioBuffer e n buf lp) =
               gains e @ [\<lparr>gain_value = 1, gain_output = Some master\<rparr>]
           \<and> node_gain (playAudioBuffer e n buf lp) n = Some 1
           \<and> destination (last (sources (playAudioBuffer e n buf lp))) = Some (gainNode st')
           \<and> node_gain (setNodeVolume (playAudioBuffer e n buf lp) n v) n =
               Some (if isMuted st then 0 else max 0 (min 1 v))"
  using assms
  by (simp add: playAudioBuffer_def Let_def stopNode_state node_gain_def setNodeVolume_def
        set_gain_def)

theorem play_resets_gain_stage_witness:
  "\<exists>st'. nodeStates (playAudioBuffer muted_engine ''a'' clip False) ''a'' = Some st'
      \<and> volume st' = 3/10 \<and> isMuted st'
      \<and> node_gain (playAudioBuffer muted_engine ''a'' clip False) ''a'' = Some 1"
proof -
  have h1: "nodeStates muted_engine ''a'' =
      Some \<lparr>source = Some 0, gainNode = 1, isPlaying = True, isPaused = False,
            startTime = 0, pauseTime = 0, volume = 3/10, isMuted = True\<rparr>"
    by (simp add: muted_engine_def engine0_def initialize_def new_AudioEngine_def
          playAudioBuffer_def stopNode_def muteNode_def setNodeVolume_def Let_def)
  have h2: "audioContext muted_engine = Some \<lparr>currentTime = 0, ctx_state = Running\<rparr>"
    by (simp add: muted_engine_def engine0_def initialize_def new_AudioEngine_def
          playAudioBuffer_def stopNode_def muteNode_def setNodeVolume_def Let_def)
  have h3: "masterGain muted_engine = Some 0"
    by (simp add: muted_engine_def engine0_def initialize_def new_AudioEngine_def
          playAudioBuffer_def stopNode_def muteNode_def setNodeVolume_def Let_def)
  from play_resets_gain_stage [OF h1 h2 h3, of clip False 1]
  show ?thesis by auto
qed




subsection \<open>Resuming a paused node\<close>

lemma resume_offset_choice:
  fixes off d :: real
  shows "(if max 0 (min off d) > 0.01 \<and> max 0 (min off d) < d then max 0 (min off d) else 0)
           = (if 0.01 < off \<and> off < d then off else 0)"
  by (auto simp: max_def min_def)

lemma stop_source_length [simp]: "length (stop_source srcs s) = length srcs"
  by (simp add: stop_source_def)

lemma clear_interval_length [simp]: "length (clear_interval ivs t) = length ivs"
  by (simp add: clear_interval_def)

lemma stop_and_untrack_frame [simp]:
  "ipm_nodeStates (stop_and_untrack m n st) = ipm_nodeStates m"
  "ipm_audioContext (stop_and_untrack m n st) = ipm_audioContext m"
  "ipm_masterGain (stop_and_untrack m n st) = ipm_masterGain m"
  "ipm_gains (stop_and_untrack m n st) = ipm_gains m"
  "length (ipm_sources (stop_and_untrack m n st)) = length (ipm_sources m)"
  "length (intervals (stop_and_untrack m n st)) = length (intervals m)"
  "timeTrackers (stop_and_untrack m n st) n = None"
  by (simp_all add: stop_and_untrack_def Let_def split: option.splits)

lemma ipm_stopNode_frame [simp]:
  "ipm_audioContext (ipm_stopNode m n) = ipm_audioContext m"
  "ipm_masterGain (ipm_stopNode m n) = ipm_masterGain m"
  "ipm_gains (ipm_stopNode m n) = ipm_gains m"
  "length (ipm_sources (ipm_stopNode m n)) = length (ipm_sources m)"
  "length (intervals (ipm_stopNode m n)) = length (intervals m)"
  by (simp_all add: ipm_stopNode_def Let_def split: option.splits)

lemma ipm_stopNode_state:
  "ipm_nodeStates m n = Some st \<Longrightarrow>
   ipm_nodeStates (ipm_stopNode m n) =
     (ipm_nodeStates m)(n \<mapsto> st\<lparr>ind_isPlaying := False, ind_isPaused := False,
        audioSource := None, ind_currentTime := 0, pausedAt := None\<rparr>)"
  by (simp add: ipm_stopNode_def Let_def)

lemma ipm_stopNode_untracked:
  "ipm_nodeStates m n = Some st \<Longrightarrow> timeTrackers (ipm_stopNode m n) n = None"
  by (simp add: ipm_stopNode_def Let_def)

text \<open>
  Claim C1 fails as stated on the individual playback manager, whose \<^verbatim>\<open>playNode\<close>
  resumes a paused node: with a stored time of 7 seconds and a clip of 5 seconds the new
  source is started at offset 7, not at 0.
\<close>

theorem resume_without_guard_counterexample:
  "map_option ind_isPaused (ipm_nodeStates stale_ipm ''a'') = Some True
   \<and> map_option ind_currentTime (ipm_nodeStates stale_ipm ''a'') = Some 7
   \<and> duration clip = 5
   \<and> map started (ipm_sources (after_play (ipm_playNode stale_ipm ''a'' clip))) = [Some 7]"
  by (simp add: stale_ipm_def ipm0_def initializeNode_def new_IndividualPlaybackManager_def
        clip_def ipm_playNode_def ipm_stopNode_def stop_and_untrack_def startTimeTracking_def
        Let_def)

text \<open>
  Claim C1 as amended. In the engine, \<^verbatim>\<open>resumeNode\<close> on a paused node (the engine
  being initialised) appends one new source, registers it as the node's active unit, marks
  the node playing, and starts the source at the stored offset \<open>pauseTime - startTime\<close>
  exactly when that offset is greater than 0.01 and less than the duration of the clip,
  and at offset 0 otherwise. In the individual playback manager, \<^verbatim>\<open>playNode\<close> on a paused
  node starts the new source at the stored time as it is, with no lower or upper bound
  applied (for a stored time that is not negative, the only kind its tracker writes).
\<close>

theorem resume_start_offset:
  "(nodeStates e n = Some st \<and> isPaused st \<and> audioContext e = Some ctx
      \<and> masterGain e = Some master \<longrightarrow>
      sources (resumeNode e n buf) =
        sources e @
        [\<lparr>buffer = buf, loop = False, destination = Some (gainNode st),
          started = Some (if 0.01 < pauseTime st - startTime st
                             \<and> pauseTime st - startTime st < duration buf
                          then pauseTime st - startTime st else 0),
          stopped = False, onended = Some n\<rparr>]
      \<and> activeNodes (resumeNode e n buf) n = Some (length (sources e))
      \<and> (\<exists>st'. nodeStates (resumeNode e n buf) n = Some st' \<and> isPlaying st'
             \<and> \<not> isPaused st' \<and> source st' = Some (length (sources e))))
   \<and> (ipm_nodeStates m k = Some s \<and> ind_isPaused s \<and> 0 \<le> ind_currentTime s \<longrightarrow>
        (\<exists>m'. ipm_playNode m k buf = Resolved m'
             \<and> length (ipm_sources m') = Suc (length (ipm_sources m))
             \<and> started (last (ipm_sources m')) = Some (ind_currentTime s)))"
proof (intro conjI impI)
  assume a: "nodeStates e n = Some st \<and> isPaused st \<and> audioContext e = Some ctx
      \<and> masterGain e = Some master"
  show "sources (resumeNode e n buf) =
        sources e @
        [\<lparr>buffer = buf, loop = False, destination = Some (gainNode st),
          started = Some (if 0.01 < pauseTime st - startTime st
                             \<and> pauseTime st - startTime st < duration buf
                          then pauseTime st - startTime st else 0),
          stopped = False, onended = Some n\<rparr>]"
    using a resume_offset_choice [of "pauseTime st - startTime st" "duration buf"]
    by (simp add: resumeNode_def Let_def)
  show "activeNodes (resumeNode e n buf) n = Some (length (sources e))"
    using a by (simp add: resumeNode_def Let_def)
  show "\<exists>st'. nodeStates (resumeNode e n buf) n = Some st' \<and> isPlaying st'
             \<and> \<not> isPaused st' \<and> source st' = Some (length (sources e))"
    using a by (simp add: resumeNode_def Let_def)
next
  assume a: "ipm_nodeStates m k = Some s \<and> ind_isPaused s \<and> 0 \<le> ind_currentTime s"
  then show "\<exists>m'. ipm_playNode m k buf = Resolved m'
             \<and> length (ipm_sources m') = Suc (length (ipm_sources m))
             \<and> started (last (ipm_sources m')) = Some (ind_currentTime s)"
    by (simp add: ipm_playNode_def Let_def startTimeTracking_def)
qed

lemma paused_engine_state:
  "nodeStates paused_engine ''a'' =
     Some \<lparr>source = Some 0, gainNode = 1, isPlaying = False, isPaused = True,
           startTime = 0, pauseTime = 2, volume = 1, isMuted = False\<rparr>
   \<and> audioContext paused_engine = Some \<lparr>currentTime = 2, ctx_state = Running\<rparr>
   \<and> masterGain paused_engine = Some 0
   \<and> map started (sources paused_engine) = [Some 0]"
  by (simp add: paused_engine_def engine_run_def engine0_def initialize_def
        new_AudioEngine_def playAudioBuffer_def stopNode_def advance_clock_def pauseNode_def
        stop_source_def Let_def)

theorem resume_start_offset_witness:
  "map started (sources (resumeNode paused_engine ''a'' clip)) = [Some 0, Some 2]
   \<and> activeNodes (resumeNode paused_engine ''a'' clip) ''a'' = Some 1
   \<and> started (last (ipm_sources (after_play (ipm_playNode stale_ipm ''a'' clip)))) = Some 7"
proof -
  have h: "ipm_nodeStates stale_ipm ''a'' =
      Some \<lparr>ind_isPlaying = False, ind_isPaused = True, ind_currentTime = 7,
            audioSource = None, pausedAt = Some 7\<rparr>"
    by (simp add: stale_ipm_def)
  from resume_start_offset
         [where e = paused_engine and n = "''a''" and buf = clip
            and st = "\<lparr>source = Some 0, gainNode = 1, isPlaying = False, isPaused = True,
                        startTime = 0, pauseTime = 2, volume = 1, isMuted = False\<rparr>"
            and ctx = "\<lparr>currentTime = 2, ctx_state = Running\<rparr>" and master = 0
            and m = stale_ipm and k = "''a''"
            and s = "\<lparr>ind_isPlaying = False, ind_isPaused = True, ind_currentTime = 7,
                       audioSource = None, pausedAt = Some 7\<rparr>"]
  show ?thesis
    using paused_engine_state h by (auto simp: clip_def)
qed

subsection \<open>Stop and pause in the individual playback manager\<close>

text \<open>
  After a pause the stored time is the one written by the last tick of the tracker, not
  the time elapsed at the moment of the pause: played at clock 0, ticked at clock 0.1 and
  paused at clock 0.15, the node stores 0.1, and the clock of the pause goes to
  \<^verbatim>\<open>pausedAt\<close>, which nothing reads.
\<close>

lemma pause_stores_last_tick:
  "map_option ind_isPaused (ipm_nodeStates paused_ipm ''a'') = Some True
   \<and> map_option pausedAt (ipm_nodeStates paused_ipm ''a'') = Some (Some (15/100))
   \<and> map_option ind_currentTime (ipm_nodeStates paused_ipm ''a'') = Some (1/10)"
  by (simp add: paused_ipm_def ipm0_def initializeNode_def new_IndividualPlaybackManager_def
        clip_def ipm_playNode_def ipm_stopNode_def stop_and_untrack_def startTimeTracking_def
        ipm_clock_def interval_tick_def ipm_pauseNode_def clear_interval_def Let_def)

text \<open>
  The single calls, for a node registered with the individual playback manager.
  \<^verbatim>\<open>stopNode\<close>, and with it the \<^verbatim>\<open>onended\<close> handler, sets the stored time to 0 and
  clears both flags, whatever the state before. \<^verbatim>\<open>pauseNode\<close> by itself leaves the
  stored time as it is; on a playing node it sets the paused flag and records the clock in
  \<^verbatim>\<open>pausedAt\<close>. A node played from the start at clock \<open>t0\<close>, ticked at clock \<open>t1\<close>
  and paused at clock \<open>t2\<close> stores \<open>t1 - t0\<close>, and one paused before its first tick
  stores 0.
\<close>

lemma ipm_stop_and_pause_calls:
  "(ipm_nodeStates m n = Some st \<longrightarrow>
      ipm_nodeStates (ipm_stopNode m n) n =
        Some (st\<lparr>ind_isPlaying := False, ind_isPaused := False, audioSource := None,
                 ind_currentTime := 0, pausedAt := None\<rparr>)
      \<and> ipm_onended_handler m n = ipm_stopNode m n
      \<and> map_option ind_currentTime (ipm_nodeStates (ipm_pauseNode m n) n)
          = Some (ind_currentTime st)
      \<and> (ind_isPlaying st \<longrightarrow>
           ipm_nodeStates (ipm_pauseNode m n) n =
             Some (st\<lparr>ind_isPlaying := False, ind_isPaused := True, audioSource := None,
                      pausedAt := Some (currentTime (ipm_audioContext m))\<rparr>)))
   \<and> (ipm_nodeStates m n = Some st \<and> \<not> ind_isPaused st \<longrightarrow>
        map_option ind_currentTime
          (ipm_nodeStates
             (ipm_pauseNode
                (ipm_clock
                   (interval_tick (ipm_clock (after_play (ipm_playNode m n buf)) t1)
                      (length (intervals m)))
                   t2)
                n) n)
          = Some (t1 - currentTime (ipm_audioContext m))
        \<and> map_option ind_currentTime
            (ipm_nodeStates (ipm_pauseNode (ipm_clock (after_play (ipm_playNode m n buf)) t2) n) n)
          = Some 0)"
proof (intro conjI impI)
  assume a: "ipm_nodeStates m n = Some st"
  show "ipm_nodeStates (ipm_stopNode m n) n =
        Some (st\<lparr>ind_isPlaying := False, ind_isPaused := False, audioSource := None,
                 ind_currentTime := 0, pausedAt := None\<rparr>)"
    using a by (simp add: ipm_stopNode_state)
  show "ipm_onended_handler m n = ipm_stopNode m n"
    by (simp add: ipm_onended_handler_def)
  show "map_option ind_currentTime (ipm_nodeStates (ipm_pauseNode m n) n)
          = Some (ind_currentTime st)"
    using a by (simp add: ipm_pauseNode_def Let_def)
  show "ipm_nodeStates (ipm_pauseNode m n) n =
             Some (st\<lparr>ind_isPlaying := False, ind_isPaused := True, audioSource := None,
                      pausedAt := Some (currentTime (ipm_audioContext m))\<rparr>)"
    if "ind_isPlaying st"
    using a that by (simp add: ipm_pauseNode_def Let_def)
next
  assume a: "ipm_nodeStates m n = Some st \<and> \<not> ind_isPaused st"
  show "map_option ind_currentTime
          (ipm_nodeStates
             (ipm_pauseNode
                (ipm_clock
                   (interval_tick (ipm_clock (after_play (ipm_playNode m n buf)) t1)
                      (length (intervals m)))
                   t2)
                n) n)
          = Some (t1 - currentTime (ipm_audioContext m))"
    using a
    by (simp add: ipm_playNode_def Let_def startTimeTracking_def ipm_stopNode_state
          ipm_stopNode_untracked ipm_clock_def interval_tick_def ipm_pauseNode_def
          nth_append)
  show "map_option ind_currentTime
            (ipm_nodeStates (ipm_pauseNode (ipm_clock (after_play (ipm_playNode m n buf)) t2) n) n)
          = Some 0"
    using a
    by (simp add: ipm_playNode_def Let_def startTimeTracking_def ipm_stopNode_state
          ipm_stopNode_untracked ipm_clock_def ipm_pauseNode_def)
qed

text \<open>
  In general a tick stores the offset the play started at plus the clock time elapsed
  since the play.
\<close>

lemma tick_stores_offset_plus_elapsed:
  assumes "ipm_nodeStates m n = Some st"
    and "0 \<le> (if ind_isPaused st then ind_currentTime st else 0)"
  shows "map_option ind_currentTime
          (ipm_nodeStates
             (ipm_pauseNode
                (ipm_clock
                   (interval_tick (ipm_clock (after_play (ipm_playNode m n buf)) t1)
                      (length (intervals m)))
                   t2)
                n) n)
          = Some ((if ind_isPaused st then ind_currentTime st else 0)
                  + (t1 - currentTime (ipm_audioContext m)))"
  using assms
  by (simp add: ipm_playNode_def Let_def startTimeTracking_def ipm_stopNode_state
        ipm_stopNode_untracked ipm_clock_def interval_tick_def ipm_pauseNode_def
        nth_append)

text \<open>
  Claim C2 does not hold of the individual playback manager. \<^verbatim>\<open>pauseNode\<close> stops the
  unit with \<^verbatim>\<open>source.stop()\<close>, and the \<^verbatim>\<open>ended\<close> event that follows runs the
  \<^verbatim>\<open>onended\<close> handler, which calls \<^verbatim>\<open>stopNode\<close>. A node is played at clock 0, ticked
  at clock 1 and paused at clock 2: it is paused with stored time 1, the time of the last
  tick and not of the pause. Once the \<^verbatim>\<open>ended\<close> event of its unit is delivered the node
  is no longer paused and its stored time is 0, so the next play starts at offset 0; had
  the event not come, it would have started at the stored time 1. The engine, given the
  same calls and the same event, stays paused and resumes at offset 2.
\<close>

theorem pause_undone_by_ended_event:
  "ipm_nodeStates
     (ipm_run ipm0 [IPlay ''a'' clip, IClock 1, ITick 0, IClock 2, IPause ''a'']) ''a''
     = Some \<lparr>ind_isPlaying = False, ind_isPaused = True, ind_currentTime = 1,
             audioSource = None, pausedAt = Some 2\<rparr>
   \<and> ipm_nodeStates
       (ipm_run ipm0 [IPlay ''a'' clip, IClock 1, ITick 0, IClock 2, IPause ''a'', IEnded 0]) ''a''
     = Some \<lparr>ind_isPlaying = False, ind_isPaused = False, ind_currentTime = 0,
             audioSource = None, pausedAt = None\<rparr>
   \<and> map started
       (ipm_sources
          (ipm_run ipm0 [IPlay ''a'' clip, IClock 1, ITick 0, IClock 2, IPause ''a'', IEnded 0,
                         IPlay ''a'' clip]))
     = [Some 0, Some 0]
   \<and> map started
       (ipm_sources
          (ipm_run ipm0 [IPlay ''a'' clip, IClock 1, ITick 0, IClock 2, IPause ''a'',
                         IPlay ''a'' clip]))
     = [Some 0, Some 1]
   \<and> map_option isPaused
       (nodeStates (engine_run engine0 [Play ''a'' clip False, Clock 2, Pause ''a'', Ended 0]) ''a'')
     = Some True
   \<and> map started
       (sources (engine_run engine0 [Play ''a'' clip False, Clock 2, Pause ''a'', Ended 0,
                                     Resume ''a'' clip]))
     = [Some 0, Some 2]"
  by (simp add: ipm_run_def ipm0_def initializeNode_def new_IndividualPlaybackManager_def
        clip_def ipm_playNode_def ipm_stopNode_def stop_and_untrack_def startTimeTracking_def
        ipm_clock_def interval_tick_def ipm_pauseNode_def clear_interval_def stop_source_def
        ipm_ended_event_def ipm_onended_handler_def Let_def
        engine_run_def engine0_def initialize_def new_AudioEngine_def playAudioBuffer_def
        stopNode_def advance_clock_def pauseNode_def resumeNode_def ended_event_def
        onended_handler_def)

subsection \<open>The node manager: links, group play and group stop\<close>

lemma updateNodeState_engine [simp]: "audioEngine (updateNodeState nm n f) = audioEngine nm"
  by (simp add: updateNodeState_def split: option.splits)

lemma updateNodeState_nodes:
  "nodes (updateNodeState nm n f) x = (if x = n then map_option f (nodes nm n) else nodes nm x)"
  by (simp add: updateNodeState_def split: option.splits)

lemma connections_of_update:
  "connections_of (updateNodeState nm n f) x =
     (if x = n then map_option (connections \<circ> f) (nodes nm n) else connections_of nm x)"
  by (simp add: connections_of_def updateNodeState_nodes option.map_comp)

lemma connections_of_connect:
  "connections_of (connectNodes nm a b) x =
     (case (connections_of nm a, connections_of nm b) of
        (Some ca, Some cb) \<Rightarrow>
          (if b \<in> set ca then connections_of nm x
           else if a = b then (if x = a then Some (ca @ [a, a]) else connections_of nm x)
           else if x = a then Some (ca @ [b])
           else if x = b then Some (cb @ [a])
           else connections_of nm x)
      | _ \<Rightarrow> connections_of nm x)"
  by (auto simp: connections_of_def connectNodes_def updateNodeState_def
           split: option.splits)

lemma connections_of_disconnect:
  "connections_of (disconnectNodes nm a b) x =
     map_option (filter (\<lambda>i. \<not> (x = a \<and> i = b) \<and> \<not> (x = b \<and> i = a))) (connections_of nm x)"
  by (cases "nodes nm x"; cases "x = a"; cases "x = b")
     (simp_all add: connections_of_def disconnectNodes_def updateNodeState_nodes
        option.map_comp comp_def)

lemma links_symmetric_alt:
  "links_symmetric nm \<longleftrightarrow>
     (\<forall>a ca. connections_of nm a = Some ca \<longrightarrow>
        (\<forall>b \<in> set ca. \<exists>cb. connections_of nm b = Some cb \<and> a \<in> set cb))"
  unfolding links_symmetric_def connections_of_def
  by (simp add: map_option_eq_Some) blast

lemma links_simple_alt:
  "links_simple nm \<longleftrightarrow>
     (\<forall>a ca b. connections_of nm a = Some ca \<longrightarrow> b \<noteq> a \<longrightarrow> count_list ca b \<le> 1)"
  by (auto simp: links_simple_def connections_of_def)


lemma disconnectNodes_engine [simp]: "audioEngine (disconnectNodes nm a b) = audioEngine nm"
  by (simp add: disconnectNodes_def)

lemma disconnect_all_engine [simp]:
  "audioEngine (foldl (\<lambda>m c. disconnectNodes m n c) nm cs) = audioEngine nm"
  by (induction cs arbitrary: nm) simp_all

lemma connections_of_disconnect_all:
  "connections_of (foldl (\<lambda>m c. disconnectNodes m n c) nm cs) x =
     map_option (filter (\<lambda>i. \<not> (x = n \<and> i \<in> set cs) \<and> \<not> (x \<in> set cs \<and> i = n)))
       (connections_of nm x)"
proof (induction cs arbitrary: nm)
  case Nil
  show ?case by (simp add: option.map_ident)
next
  case (Cons c cs)
  have "connections_of (foldl (\<lambda>m c. disconnectNodes m n c) nm (c # cs)) x =
      map_option (filter (\<lambda>i. \<not> (x = n \<and> i \<in> set cs) \<and> \<not> (x \<in> set cs \<and> i = n)))
        (connections_of (disconnectNodes nm n c) x)"
    by (simp add: Cons.IH)
  also have "\<dots> = map_option (filter (\<lambda>i. \<not> (x = n \<and> i \<in> set (c # cs))
                                      \<and> \<not> (x \<in> set (c # cs) \<and> i = n)))
        (connections_of nm x)"
    by (cases "connections_of nm x")
       (auto simp: connections_of_disconnect intro!: filter_cong)
  finally show ?case .
qed

lemma connections_of_stop_connected [simp]:
  "connections_of (stop_connected nm c) x = connections_of nm x"
  by (cases "nodes nm c")
     (auto simp: stop_connected_def connections_of_def updateNodeState_nodes)

lemma connections_of_stop_all [simp]:
  "connections_of (foldl stop_connected nm cs) x = connections_of nm x"
  by (induction cs arbitrary: nm) simp_all

lemma connections_of_nm_stopNode [simp]:
  "connections_of (nm_stopNode nm n) x = connections_of nm x"
proof -
  let ?nm1 = "updateNodeState (nm\<lparr>audioEngine := stopNode (audioEngine nm) n\<rparr>)
                  n (\<lambda>node. node\<lparr>node_isPlaying := False\<rparr>)"
  have a: "connections_of ?nm1 x = connections_of nm x"
    by (cases "nodes nm n") (auto simp: connections_of_def updateNodeState_nodes)
  show ?thesis
    by (cases "nodes ?nm1 n") (simp_all add: nm_stopNode_def Let_def a)
qed

lemma connections_of_None: "connections_of nm x = None \<longleftrightarrow> nodes nm x = None"
  by (simp add: connections_of_def)

lemma connections_of_removeNode:
  assumes "connections_of nm n = Some cs"
  shows "connections_of (removeNode nm n) x =
     (if x = n then None
      else map_option (filter (\<lambda>i. \<not> (x \<in> set cs \<and> i = n))) (connections_of nm x))"
proof -
  obtain node where node: "nodes nm n = Some node" "connections node = cs"
    using assms by (auto simp: connections_of_def)
  let ?nm2 = "foldl (\<lambda>m c. disconnectNodes m n c) (nm_stopNode nm n) cs"
  have r: "removeNode nm n = ?nm2\<lparr>nodes := (nodes ?nm2)(n := None)\<rparr>"
    using node by (simp add: removeNode_def Let_def)
  show ?thesis
  proof (cases "x = n")
    case True
    then show ?thesis by (simp add: r connections_of_def)
  next
    case False
    then have "connections_of (removeNode nm n) x = connections_of ?nm2 x"
      by (simp add: r connections_of_def)
    with False show ?thesis
      by (simp add: connections_of_disconnect_all)
  qed
qed

lemma removeNode_engine:
  "nodes nm n = Some node \<Longrightarrow> audioEngine (removeNode nm n) = audioEngine (nm_stopNode nm n)"
  by (simp add: removeNode_def Let_def)

lemma removeNode_unlinks:
  assumes sym: "links_symmetric nm" and node: "nodes nm n = Some node"
  shows "\<forall>r nd. nodes (removeNode nm n) r = Some nd \<longrightarrow> n \<notin> set (connections nd)"
proof (intro allI impI)
  fix r nd
  assume r: "nodes (removeNode nm n) r = Some nd"
  have cs: "connections_of nm n = Some (connections node)"
    using node by (simp add: connections_of_def)
  have c': "connections_of (removeNode nm n) r = Some (connections nd)"
    using r by (simp add: connections_of_def)
  have rn: "r \<noteq> n"
    using c' connections_of_removeNode [OF cs, of r] by auto
  then obtain cr where cr: "connections_of nm r = Some cr"
    and eq: "connections nd = filter (\<lambda>i. \<not> (r \<in> set (connections node) \<and> i = n)) cr"
    using c' connections_of_removeNode [OF cs, of r] by auto
  show "n \<notin> set (connections nd)"
  proof
    assume "n \<in> set (connections nd)"
    then have "n \<in> set cr" and "r \<notin> set (connections node)"
      using eq by auto
    moreover from sym cr \<open>n \<in> set cr\<close> cs have "r \<in> set (connections node)"
      unfolding links_symmetric_alt by fastforce
    ultimately show False by simp
  qed
qed

lemma removeNode_links_symmetric:
  assumes sym: "links_symmetric nm" and node: "nodes nm n = Some node"
  shows "links_symmetric (removeNode nm n)"
  unfolding links_symmetric_alt
proof (intro allI impI ballI)
  fix a ca b
  assume a: "connections_of (removeNode nm n) a = Some ca" and b: "b \<in> set ca"
  have cs: "connections_of nm n = Some (connections node)"
    using node by (simp add: connections_of_def)
  have an: "a \<noteq> n"
    using a connections_of_removeNode [OF cs, of a] by auto
  then obtain ca0 where ca0: "connections_of nm a = Some ca0"
    and eq: "ca = filter (\<lambda>i. \<not> (a \<in> set (connections node) \<and> i = n)) ca0"
    using a connections_of_removeNode [OF cs, of a] by auto
  have b0: "b \<in> set ca0" using b eq by simp
  then obtain cb0 where cb0: "connections_of nm b = Some cb0" "a \<in> set cb0"
    using sym ca0 unfolding links_symmetric_alt by blast
  have bn: "b \<noteq> n"
  proof
    assume "b = n"
    then have "a \<in> set (connections node)" using cb0 cs by simp
    with b eq \<open>b = n\<close> show False by simp
  qed
  show "\<exists>cb. connections_of (removeNode nm n) b = Some cb \<and> a \<in> set cb"
    using connections_of_removeNode [OF cs, of b] bn cb0 an by auto
qed


lemma stopNode_other:
  "c \<noteq> b \<Longrightarrow> activeNodes (stopNode e c) b = activeNodes e b"
  "c \<noteq> b \<Longrightarrow> nodeStates (stopNode e c) b = nodeStates e b"
  by (simp_all add: stopNode_def Let_def split: option.splits)

lemma stopNode_self [simp]: "activeNodes (stopNode e b) b = None"
  by (simp add: stopNode_def Let_def split: option.splits)

lemma stopNode_sources_length [simp]: "length (sources (stopNode e c)) = length (sources e)"
  by (simp add: stopNode_def Let_def split: option.splits)

lemma stop_source_fields:
  "buffer (stop_source srcs c ! s) = buffer (srcs ! s)"
  "loop (stop_source srcs c ! s) = loop (srcs ! s)"
  "started (stop_source srcs c ! s) = started (srcs ! s)"
  "onended (stop_source srcs c ! s) = onended (srcs ! s)"
  "destination (stop_source srcs c ! s) = destination (srcs ! s)"
  "stopped (srcs ! s) \<Longrightarrow> stopped (stop_source srcs c ! s)"
  by (auto simp: stop_source_def nth_list_update)

lemma stop_source_stops: "s < length srcs \<Longrightarrow> stopped (stop_source srcs s ! s)"
  by (simp add: stop_source_def)

lemma stopNode_source_fields:
  "buffer (sources (stopNode e c) ! s) = buffer (sources e ! s)"
  "loop (sources (stopNode e c) ! s) = loop (sources e ! s)"
  "started (sources (stopNode e c) ! s) = started (sources e ! s)"
  "onended (sources (stopNode e c) ! s) = onended (sources e ! s)"
  "stopped (sources e ! s) \<Longrightarrow> stopped (sources (stopNode e c) ! s)"
  by (simp_all add: stopNode_def Let_def stop_source_fields split: option.splits)

lemma stopNode_stops_registered:
  "activeNodes e b = Some s \<Longrightarrow> s < length (sources e) \<Longrightarrow> stopped (sources (stopNode e b) ! s)"
  by (simp add: stopNode_def Let_def stop_source_stops split: option.splits)

lemma stop_connected_engine [simp]:
  "audioEngine (stop_connected nm c) = stopNode (audioEngine nm) c"
  by (simp add: stop_connected_def)

lemma stop_connected_nodes:
  "nodes (stop_connected nm c) x =
     (if x = c then map_option (\<lambda>node. node\<lparr>node_isPlaying := False\<rparr>) (nodes nm c)
      else nodes nm x)"
  by (simp add: stop_connected_def updateNodeState_nodes)

lemma stop_connected_effect: "stop_effect (stop_connected nm b) b"
  by (cases "nodes nm b"; cases "nodeStates (audioEngine nm) b")
     (simp_all add: stop_effect_def stop_connected_nodes stopNode_state)

lemma stop_connected_keeps: "stop_effect nm b \<Longrightarrow> stop_effect (stop_connected nm c) b"
  by (cases "c = b")
     (simp_all add: stop_connected_effect, simp add: stop_effect_def stop_connected_nodes
        stopNode_other)

lemma stop_all_keeps: "stop_effect nm b \<Longrightarrow> stop_effect (foldl stop_connected nm cs) b"
  by (induction cs arbitrary: nm) (simp_all add: stop_connected_keeps)

lemma stop_all_effect: "b \<in> set cs \<Longrightarrow> stop_effect (foldl stop_connected nm cs) b"
proof (induction cs arbitrary: nm)
  case Nil
  then show ?case by simp
next
  case (Cons c cs)
  show ?case
  proof (cases "c = b")
    case True
    then show ?thesis by (simp add: stop_all_keeps stop_connected_effect)
  next
    case False
    with Cons show ?thesis by simp
  qed
qed

lemma nm_stopNode_unfold:
  "nm_stopNode nm a =
     foldl stop_connected (stop_connected nm a)
       (case nodes nm a of Some node \<Rightarrow> connections node | None \<Rightarrow> [])"
  by (cases "nodes nm a")
     (simp_all add: nm_stopNode_def Let_def stop_connected_def updateNodeState_nodes
        updateNodeState_def)

lemma nm_stopNode_effect:
  "stop_effect (nm_stopNode nm a) a"
  "nodes nm a = Some na \<Longrightarrow> b \<in> set (connections na) \<Longrightarrow> stop_effect (nm_stopNode nm a) b"
  by (simp_all add: nm_stopNode_unfold stop_all_keeps stop_connected_effect stop_all_effect)

lemma stop_all_sources_length [simp]:
  "length (sources (audioEngine (foldl stop_connected nm cs))) = length (sources (audioEngine nm))"
  by (induction cs arbitrary: nm) simp_all

lemma stop_all_stopped_mono:
  "stopped (sources (audioEngine nm) ! s) \<Longrightarrow>
   stopped (sources (audioEngine (foldl stop_connected nm cs)) ! s)"
  by (induction cs arbitrary: nm) (simp_all add: stopNode_source_fields)

lemma stop_all_stops_registered:
  assumes "b \<in> set cs" and "s < length (sources (audioEngine nm))"
    and "activeNodes (audioEngine nm) b = Some s \<or> stopped (sources (audioEngine nm) ! s)"
  shows "stopped (sources (audioEngine (foldl stop_connected nm cs)) ! s)"
  using assms
proof (induction cs arbitrary: nm)
  case Nil
  then show ?case by simp
next
  case (Cons c cs)
  show ?case
  proof (cases "c = b")
    case True
    have "stopped (sources (audioEngine (stop_connected nm b)) ! s)"
      using Cons.prems(2,3) by (auto simp: stopNode_stops_registered stopNode_source_fields)
    then show ?thesis using True by (simp add: stop_all_stopped_mono)
  next
    case False
    then have "b \<in> set cs" using Cons.prems(1) by simp
    moreover have "s < length (sources (audioEngine (stop_connected nm c)))"
      using Cons.prems(2) by simp
    moreover have "activeNodes (audioEngine (stop_connected nm c)) b = Some s
        \<or> stopped (sources (audioEngine (stop_connected nm c)) ! s)"
      using Cons.prems(3) False by (auto simp: stopNode_other stopNode_source_fields)
    ultimately show ?thesis using Cons.IH by simp
  qed
qed

lemma nm_stopNode_stops_registered:
  assumes "nodes nm a = Some na" and "b \<in> set (connections na)"
    and "activeNodes (audioEngine nm) b = Some s" and "s < length (sources (audioEngine nm))"
  shows "stopped (sources (audioEngine (nm_stopNode nm a)) ! s)"
proof -
  have "activeNodes (audioEngine (stop_connected nm a)) b = Some s
        \<or> stopped (sources (audioEngine (stop_connected nm a)) ! s)"
    using assms(3,4) by (cases "a = b") (auto simp: stopNode_other stopNode_stops_registered)
  then show ?thesis
    using assms by (simp add: nm_stopNode_unfold stop_all_stops_registered)
qed


lemma playAudioBuffer_other:
  "x \<noteq> b \<Longrightarrow> activeNodes (playAudioBuffer e x buf lp) b = activeNodes e b"
  "x \<noteq> b \<Longrightarrow> nodeStates (playAudioBuffer e x buf lp) b = nodeStates e b"
  by (simp_all add: playAudioBuffer_def Let_def stopNode_other split: option.splits)

lemma playAudioBuffer_context [simp]:
  "audioContext (playAudioBuffer e x buf lp) = audioContext e"
  "masterGain (playAudioBuffer e x buf lp) = masterGain e"
  by (simp_all add: playAudioBuffer_def Let_def split: option.splits)

lemma playAudioBuffer_sources_length:
  "length (sources e) \<le> length (sources (playAudioBuffer e x buf lp))"
  by (simp add: playAudioBuffer_def Let_def split: option.splits)

lemma playAudioBuffer_old_sources:
  assumes "s < length (sources e)"
  shows "buffer (sources (playAudioBuffer e x buf lp) ! s) = buffer (sources e ! s)"
    and "loop (sources (playAudioBuffer e x buf lp) ! s) = loop (sources e ! s)"
    and "started (sources (playAudioBuffer e x buf lp) ! s) = started (sources e ! s)"
  using assms
  by (simp_all add: playAudioBuffer_def Let_def nth_append stopNode_source_fields
        split: option.splits)

lemma playAudioBuffer_self:
  assumes "audioContext e = Some ctx" and "masterGain e = Some master"
  shows "\<exists>st. nodeStates (playAudioBuffer e b buf lp) b = Some st \<and> isPlaying st \<and> \<not> isPaused st
          \<and> source st = Some (length (sources e))"
    and "activeNodes (playAudioBuffer e b buf lp) b = Some (length (sources e))"
    and "length (sources (playAudioBuffer e b buf lp)) = Suc (length (sources e))"
    and "sources (playAudioBuffer e b buf lp) ! length (sources e) =
           \<lparr>buffer = buf, loop = lp, destination = Some (length (gains e)), started = Some 0,
            stopped = False, onended = Some b\<rparr>"
  using assms
  by (simp_all add: playAudioBuffer_def Let_def nth_append split: option.splits)

lemma play_connected_other:
  assumes "x \<noteq> b"
  shows "nodes (play_connected lp nm x) b = nodes nm b"
    and "nodeStates (audioEngine (play_connected lp nm x)) b = nodeStates (audioEngine nm) b"
    and "activeNodes (audioEngine (play_connected lp nm x)) b = activeNodes (audioEngine nm) b"
  using assms
  by (simp_all add: play_connected_def updateNodeState_nodes playAudioBuffer_other
        split: option.splits)

lemma play_connected_context [simp]:
  "audioContext (audioEngine (play_connected lp nm x)) = audioContext (audioEngine nm)"
  "masterGain (audioEngine (play_connected lp nm x)) = masterGain (audioEngine nm)"
  by (simp_all add: play_connected_def split: option.splits)

lemma play_connected_flagged:
  "nodes nm b = Some nb \<Longrightarrow> node_isPlaying nb \<Longrightarrow> play_connected lp nm b = nm"
  by (simp add: play_connected_def split: option.splits)

lemma play_connected_sources_length:
  "length (sources (audioEngine nm)) \<le> length (sources (audioEngine (play_connected lp nm x)))"
  by (simp add: play_connected_def playAudioBuffer_sources_length split: option.splits)

lemma play_connected_old_sources:
  assumes "s < length (sources (audioEngine nm))"
  shows "buffer (sources (audioEngine (play_connected lp nm x)) ! s) = buffer (sources (audioEngine nm) ! s)"
    and "loop (sources (audioEngine (play_connected lp nm x)) ! s) = loop (sources (audioEngine nm) ! s)"
    and "started (sources (audioEngine (play_connected lp nm x)) ! s) = started (sources (audioEngine nm) ! s)"
  using assms
  by (simp_all add: play_connected_def playAudioBuffer_old_sources split: option.splits)

lemma play_effect_base_mono:
  "base' \<le> base \<Longrightarrow> play_effect lp buf base nm b \<Longrightarrow> play_effect lp buf base' nm b"
  by (auto simp: play_effect_def)

lemma play_connected_keeps_effect:
  assumes "play_effect lp buf base nm b"
  shows "play_effect lp buf base (play_connected lp' nm x) b"
proof (cases "x = b")
  case True
  from assms obtain nb where "nodes nm b = Some nb" "node_isPlaying nb"
    by (auto simp: play_effect_def)
  with True show ?thesis using assms by (simp add: play_connected_flagged)
next
  case False
  from assms obtain st s where s:
    "map_option node_isPlaying (nodes nm b) = Some True"
    "nodeStates (audioEngine nm) b = Some st" "isPlaying st" "\<not> isPaused st"
    "source st = Some s" "activeNodes (audioEngine nm) b = Some s"
    "base \<le> s" "s < length (sources (audioEngine nm))"
    "loop (sources (audioEngine nm) ! s) = lp" "buffer (sources (audioEngine nm) ! s) = buf"
    "started (sources (audioEngine nm) ! s) = Some 0"
    unfolding play_effect_def by blast
  have "s < length (sources (audioEngine (play_connected lp' nm x)))"
    using s(8) play_connected_sources_length [of nm lp' x] by simp
  with s False show ?thesis
    unfolding play_effect_def
    by (simp add: play_connected_other play_connected_old_sources)
qed

lemma play_all_keeps_effect:
  "play_effect lp buf base nm b \<Longrightarrow> play_effect lp buf base (foldl (play_connected lp') nm cs) b"
  by (induction cs arbitrary: nm) (simp_all add: play_connected_keeps_effect)

lemma play_connected_self_effect:
  assumes "nodes nm b = Some nb" and "audioBuffer nb = Some buf" and "\<not> node_isPlaying nb"
    and "audioContext (audioEngine nm) = Some ctx" and "masterGain (audioEngine nm) = Some master"
  shows "play_effect lp buf (length (sources (audioEngine nm))) (play_connected lp nm b) b"
  using assms playAudioBuffer_self [OF assms(4,5), of b buf lp]
  by (auto simp: play_effect_def play_connected_def updateNodeState_nodes)

lemma play_all_effect:
  assumes "b \<in> set cs" and "nodes nm b = Some nb" and "audioBuffer nb = Some buf"
    and "\<not> node_isPlaying nb"
    and "audioContext (audioEngine nm) = Some ctx" and "masterGain (audioEngine nm) = Some master"
  shows "play_effect lp buf (length (sources (audioEngine nm)))
           (foldl (play_connected lp) nm cs) b"
  using assms
proof (induction cs arbitrary: nm)
  case Nil
  then show ?case by simp
next
  case (Cons c cs)
  show ?case
  proof (cases "c = b")
    case True
    then show ?thesis
      using play_connected_self_effect [OF Cons.prems(2-6), of lp]
      by (simp add: play_all_keeps_effect)
  next
    case False
    then have "play_effect lp buf (length (sources (audioEngine (play_connected lp nm c))))
           (foldl (play_connected lp) (play_connected lp nm c) cs) b"
      using Cons.prems by (intro Cons.IH) (simp_all add: play_connected_other)
    then show ?thesis
      using play_connected_sources_length [of nm lp c]
      by (auto intro: play_effect_base_mono)
  qed
qed

lemma play_all_untouched:
  assumes "nodes nm b = Some nb" and "node_isPlaying nb"
  shows "nodes (foldl (play_connected lp) nm cs) b = Some nb
     \<and> nodeStates (audioEngine (foldl (play_connected lp) nm cs)) b = nodeStates (audioEngine nm) b
     \<and> activeNodes (audioEngine (foldl (play_connected lp) nm cs)) b = activeNodes (audioEngine nm) b"
  using assms
proof (induction cs arbitrary: nm)
  case Nil
  then show ?case by simp
next
  case (Cons c cs)
  show ?case
  proof (cases "c = b")
    case True
    with Cons show ?thesis by (simp add: play_connected_flagged)
  next
    case False
    with Cons.prems have "nodes (play_connected lp nm c) b = Some nb"
      by (simp add: play_connected_other)
    from Cons.IH [OF this Cons.prems(2)] False show ?thesis
      by (simp add: play_connected_other)
  qed
qed


lemma connectNodes_noop:
  "nodes nm a = Some na \<Longrightarrow> b \<in> set (connections na) \<Longrightarrow> connectNodes nm a b = nm"
  by (simp add: connectNodes_def split: option.splits)

lemma connectNodes_links_symmetric:
  assumes "links_symmetric nm"
  shows "links_symmetric (connectNodes nm a b)"
proof (cases "connections_of nm a")
  case None
  then show ?thesis using assms
    by (simp add: connectNodes_def connections_of_None)
next
  case (Some ca)
  note ca = this
  show ?thesis
  proof (cases "connections_of nm b")
    case None
    then show ?thesis using assms
      by (simp add: connectNodes_def connections_of_None split: option.splits)
  next
    case (Some cb)
    show ?thesis
      unfolding links_symmetric_alt
    proof (intro allI impI ballI)
      fix x cx y
      assume x: "connections_of (connectNodes nm a b) x = Some cx" and y: "y \<in> set cx"
      show "\<exists>cy. connections_of (connectNodes nm a b) y = Some cy \<and> x \<in> set cy"
        using assms [unfolded links_symmetric_alt] x y ca Some
        by (simp add: connections_of_connect split: if_splits) (fastforce+)?
    qed
  qed
qed


lemma connectNodes_links_simple:
  assumes "links_symmetric nm" and "links_simple nm"
  shows "links_simple (connectNodes nm a b)"
proof (cases "connections_of nm a")
  case None
  then show ?thesis using assms
    by (simp add: connectNodes_def connections_of_None)
next
  case (Some ca)
  note ca = this
  show ?thesis
  proof (cases "connections_of nm b")
    case None
    then show ?thesis using assms
      by (simp add: connectNodes_def connections_of_None split: option.splits)
  next
    case (Some cb)
    have mirror: "a \<in> set cb \<Longrightarrow> b \<in> set ca"
      using assms(1) [unfolded links_symmetric_alt] ca Some by fastforce
    show ?thesis
      unfolding links_simple_alt
    proof (intro allI impI)
      fix x cx y
      assume x: "connections_of (connectNodes nm a b) x = Some cx" and y: "y \<noteq> x"
      show "count_list cx y \<le> 1"
        using assms(2) [unfolded links_simple_alt] x y ca Some mirror
        by (auto simp: connections_of_connect count_list_0_iff split: if_splits)
    qed
  qed
qed

lemma disconnectNodes_links_symmetric:
  assumes "links_symmetric nm"
  shows "links_symmetric (disconnectNodes nm a b)"
  unfolding links_symmetric_alt
proof (intro allI impI ballI)
  fix x cx y
  assume x: "connections_of (disconnectNodes nm a b) x = Some cx" and y: "y \<in> set cx"
  from x obtain cx0 where cx0: "connections_of nm x = Some cx0"
    and eq: "cx = filter (\<lambda>i. \<not> (x = a \<and> i = b) \<and> \<not> (x = b \<and> i = a)) cx0"
    by (auto simp: connections_of_disconnect)
  from y eq have y0: "y \<in> set cx0" and ny: "\<not> (x = a \<and> y = b) \<and> \<not> (x = b \<and> y = a)"
    by auto
  from assms cx0 y0 obtain cy0 where cy0: "connections_of nm y = Some cy0" "x \<in> set cy0"
    unfolding links_symmetric_alt by blast
  show "\<exists>cy. connections_of (disconnectNodes nm a b) y = Some cy \<and> x \<in> set cy"
    using cy0 ny by (auto simp: connections_of_disconnect)
qed

lemma disconnectNodes_links_simple:
  assumes "links_simple nm"
  shows "links_simple (disconnectNodes nm a b)"
  unfolding links_simple_alt
proof (intro allI impI)
  fix x cx y
  assume x: "connections_of (disconnectNodes nm a b) x = Some cx" and y: "y \<noteq> x"
  from x obtain cx0 where cx0: "connections_of nm x = Some cx0"
    and eq: "cx = filter (\<lambda>i. \<not> (x = a \<and> i = b) \<and> \<not> (x = b \<and> i = a)) cx0"
    by (auto simp: connections_of_disconnect)
  have "count_list cx y \<le> count_list cx0 y"
    unfolding eq by (induction cx0) auto
  moreover have "count_list cx0 y \<le> 1"
    using assms cx0 y unfolding links_simple_alt by blast
  ultimately show "count_list cx y \<le> 1" by simp
qed

lemma new_NodeManager_links:
  "links_symmetric (new_NodeManager e)" "links_simple (new_NodeManager e)"
  by (simp_all add: links_symmetric_def links_simple_def new_NodeManager_def)

lemma createNode_links:
  assumes "createNode decode new_id col nm f px py = Inr (node, nm')"
    and "nodes nm new_id = None"
  shows "links_symmetric nm \<Longrightarrow> links_symmetric nm'"
    and "links_simple nm \<Longrightarrow> links_simple nm'"
proof -
  from assms(1) have nm': "nodes nm' = (nodes nm)(new_id \<mapsto> node)" "connections node = []"
    by (auto simp: createNode_def Let_def split: sum.splits)
  show "links_symmetric nm \<Longrightarrow> links_symmetric nm'"
    unfolding links_symmetric_def using nm' assms(2)
    by (auto split: if_splits) (metis option.distinct(1))+
  show "links_simple nm \<Longrightarrow> links_simple nm'"
    unfolding links_simple_def using nm' by auto
qed

lemma nm_stopNode_links:
  "links_symmetric nm \<Longrightarrow> links_symmetric (nm_stopNode nm n)"
  "links_simple nm \<Longrightarrow> links_simple (nm_stopNode nm n)"
  by (simp_all add: links_symmetric_alt links_simple_alt)

lemma connections_of_play_connected [simp]:
  "connections_of (play_connected lp nm c) x = connections_of nm x"
  by (cases "nodes nm c")
     (auto simp: play_connected_def connections_of_def updateNodeState_nodes
        split: option.splits)

lemma connections_of_play_all [simp]:
  "connections_of (foldl (play_connected lp) nm cs) x = connections_of nm x"
  by (induction cs arbitrary: nm) simp_all

lemma connections_of_nm_playNode [simp]:
  "connections_of (nm_playNode nm n lp) x = connections_of nm x"
proof (cases "nodes nm n")
  case None
  then show ?thesis by (simp add: nm_playNode_def)
next
  case (Some node)
  show ?thesis
  proof (cases "audioBuffer node")
    case None
    with Some show ?thesis by (simp add: nm_playNode_def)
  next
    case (Some audio)
    let ?nm0 = "updateNodeState (nm\<lparr>audioEngine := playAudioBuffer (audioEngine nm) n audio lp\<rparr>)
                  n (\<lambda>node. node\<lparr>node_isPlaying := True\<rparr>)"
    have "connections_of ?nm0 x = connections_of nm x"
      using \<open>nodes nm n = Some node\<close> by (auto simp: connections_of_def updateNodeState_nodes)
    moreover have "nm_playNode nm n lp = foldl (play_connected lp) ?nm0 (connections node)"
      using \<open>nodes nm n = Some node\<close> Some by (simp add: nm_playNode_def)
    ultimately show ?thesis by simp
  qed
qed

lemma nm_playNode_links:
  "links_symmetric nm \<Longrightarrow> links_symmetric (nm_playNode nm n lp)"
  "links_simple nm \<Longrightarrow> links_simple (nm_playNode nm n lp)"
  by (simp_all add: links_symmetric_alt links_simple_alt)

lemma removeNode_links_simple:
  assumes "links_simple nm" and "nodes nm n = Some node"
  shows "links_simple (removeNode nm n)"
  unfolding links_simple_alt
proof (intro allI impI)
  fix x cx y
  assume x: "connections_of (removeNode nm n) x = Some cx" and y: "y \<noteq> x"
  have cs: "connections_of nm n = Some (connections node)"
    using assms(2) by (simp add: connections_of_def)
  from x obtain cx0 where cx0: "connections_of nm x = Some cx0"
    and eq: "cx = filter (\<lambda>i. \<not> (x \<in> set (connections node) \<and> i = n)) cx0"
    using connections_of_removeNode [OF cs, of x] by (auto split: if_splits)
  have "count_list cx y \<le> count_list cx0 y"
    unfolding eq by (induction cx0) auto
  moreover have "count_list cx0 y \<le> 1"
    using assms(1) cx0 y unfolding links_simple_alt by blast
  ultimately show "count_list cx y \<le> 1" by simp
qed


lemma linked_manager_nodes:
  "nodes linked_manager ''a'' =
     Some \<lparr>node_ident = ''a'', pos_x = 0, pos_y = 0, audioBuffer = Some clip,
           fileName = ''a.wav'', node_isPlaying = False, connections = [''b''],
           color = ''#ffffff''\<rparr>"
  "nodes linked_manager ''b'' =
     Some \<lparr>node_ident = ''b'', pos_x = 10, pos_y = 10, audioBuffer = Some clip,
           fileName = ''b.wav'', node_isPlaying = False, connections = [''a''],
           color = ''#e5e7eb''\<rparr>"
  "audioEngine linked_manager = engine0"
  by (simp_all add: linked_manager_def two_nodes_def sample_manager_def createNode_def
        loadAudioFile_def new_NodeManager_def engine0_def initialize_def new_AudioEngine_def
        connectNodes_def updateNodeState_def Let_def)

lemma engine0_fields:
  "audioContext engine0 = Some \<lparr>currentTime = 0, ctx_state = Running\<rparr>"
  "masterGain engine0 = Some 0" "sources engine0 = []"
  by (simp_all add: engine0_def initialize_def new_AudioEngine_def)

text \<open>
  Claim C3 fails as stated in one point: the group play passes the loop flag it was given
  on to the neighbours. Played with the flag set, node \<open>a\<close> makes its neighbour \<open>b\<close>
  loop as well.
\<close>

theorem group_play_passes_loop_counterexample:
  "map loop (sources (audioEngine (nm_playNode linked_manager ''a'' True))) = [True, True]
   \<and> activeNodes (audioEngine (nm_playNode linked_manager ''a'' True)) ''b'' = Some 1"
  by (simp add: nm_playNode_def linked_manager_nodes play_connected_def updateNodeState_def
        playAudioBuffer_def stopNode_def engine0_def initialize_def new_AudioEngine_def
        Let_def)

text \<open>
  The bookkeeping of the group play and the group stop, stated on the manager's flag. Let
  \<open>b\<close> be a neighbour of \<open>a\<close>, other than \<open>a\<close> itself, both with a decoded clip, the
  engine being initialised. The group play on \<open>a\<close> plays \<open>a\<close>; if the manager does not
  flag \<open>b\<close> as playing, it plays \<open>b\<close> too, with the loop flag given for \<open>a\<close>; if
  \<open>b\<close> is flagged, its node record, its state record and its registered unit stay as
  they were. The group stop on \<open>a\<close> leaves no unit registered for \<open>a\<close> and its
  neighbours and stops the units that were registered.
\<close>

lemma group_play_bookkeeping:
  "(nodes nm a = Some na \<and> audioBuffer na = Some bufa \<and> b \<in> set (connections na) \<and> b \<noteq> a
      \<and> nodes nm b = Some nb \<and> audioBuffer nb = Some bufb
      \<and> audioContext (audioEngine nm) = Some ctx \<and> masterGain (audioEngine nm) = Some master
    \<longrightarrow> play_effect lp bufa (length (sources (audioEngine nm))) (nm_playNode nm a lp) a
      \<and> (\<not> node_isPlaying nb \<longrightarrow>
           play_effect lp bufb (length (sources (audioEngine nm))) (nm_playNode nm a lp) b)
      \<and> (node_isPlaying nb \<longrightarrow>
           nodes (nm_playNode nm a lp) b = Some nb
           \<and> nodeStates (audioEngine (nm_playNode nm a lp)) b = nodeStates (audioEngine nm) b
           \<and> activeNodes (audioEngine (nm_playNode nm a lp)) b = activeNodes (audioEngine nm) b))
   \<and> (nodes nm a = Some na \<and> b \<in> set (connections na)
    \<longrightarrow> stop_effect (nm_stopNode nm a) a \<and> stop_effect (nm_stopNode nm a) b
      \<and> (\<forall>s. activeNodes (audioEngine nm) b = Some s \<and> s < length (sources (audioEngine nm))
            \<longrightarrow> stopped (sources (audioEngine (nm_stopNode nm a)) ! s)))"
proof (intro conjI impI allI)
  assume h: "nodes nm a = Some na \<and> audioBuffer na = Some bufa \<and> b \<in> set (connections na)
      \<and> b \<noteq> a \<and> nodes nm b = Some nb \<and> audioBuffer nb = Some bufb
      \<and> audioContext (audioEngine nm) = Some ctx \<and> masterGain (audioEngine nm) = Some master"
  let ?e1 = "playAudioBuffer (audioEngine nm) a bufa lp"
  let ?nm0 = "updateNodeState (nm\<lparr>audioEngine := ?e1\<rparr>) a (\<lambda>node. node\<lparr>node_isPlaying := True\<rparr>)"
  have unfold: "nm_playNode nm a lp = foldl (play_connected lp) ?nm0 (connections na)"
    using h by (simp add: nm_playNode_def)
  have ctx0: "audioContext (audioEngine ?nm0) = Some ctx" "masterGain (audioEngine ?nm0) = Some master"
    using h by simp_all
  have b0: "nodes ?nm0 b = Some nb"
    using h by (simp add: updateNodeState_nodes)
  have len0: "length (sources (audioEngine nm)) \<le> length (sources (audioEngine ?nm0))"
    by (simp add: playAudioBuffer_sources_length)
  have "play_effect lp bufa (length (sources (audioEngine nm))) ?nm0 a"
    using h playAudioBuffer_self [of "audioEngine nm" ctx master a bufa lp]
    by (auto simp: play_effect_def updateNodeState_nodes)
  then show "play_effect lp bufa (length (sources (audioEngine nm))) (nm_playNode nm a lp) a"
    by (simp add: unfold play_all_keeps_effect)
  show "play_effect lp bufb (length (sources (audioEngine nm))) (nm_playNode nm a lp) b"
    if "\<not> node_isPlaying nb"
  proof -
    have "play_effect lp bufb (length (sources (audioEngine ?nm0)))
            (foldl (play_connected lp) ?nm0 (connections na)) b"
      using h that b0 ctx0 by (intro play_all_effect) simp_all
    then show ?thesis
      using len0 unfold by (auto intro: play_effect_base_mono)
  qed
  assume playing: "node_isPlaying nb"
  have same: "nodeStates (audioEngine ?nm0) b = nodeStates (audioEngine nm) b"
      "activeNodes (audioEngine ?nm0) b = activeNodes (audioEngine nm) b"
    using h by (auto simp: playAudioBuffer_other)
  from play_all_untouched [OF b0 playing, of lp "connections na"] same
  show "nodes (nm_playNode nm a lp) b = Some nb"
    and "nodeStates (audioEngine (nm_playNode nm a lp)) b = nodeStates (audioEngine nm) b"
    and "activeNodes (audioEngine (nm_playNode nm a lp)) b = activeNodes (audioEngine nm) b"
    by (simp_all add: unfold)
next
  assume h: "nodes nm a = Some na \<and> b \<in> set (connections na)"
  show "stop_effect (nm_stopNode nm a) a"
    by (rule nm_stopNode_effect)
  show "stop_effect (nm_stopNode nm a) b"
    using h by (auto intro: nm_stopNode_effect)
  fix s
  assume "activeNodes (audioEngine nm) b = Some s \<and> s < length (sources (audioEngine nm))"
  with h show "stopped (sources (audioEngine (nm_stopNode nm a)) ! s)"
    by (auto intro: nm_stopNode_stops_registered)
qed

lemma playing_manager_facts:
  "nodes playing_manager ''a'' =
     Some \<lparr>node_ident = ''a'', pos_x = 0, pos_y = 0, audioBuffer = Some clip,
           fileName = ''a.wav'', node_isPlaying = True, connections = [''b''],
           color = ''#ffffff''\<rparr>"
  "nodes playing_manager ''b'' =
     Some \<lparr>node_ident = ''b'', pos_x = 10, pos_y = 10, audioBuffer = Some clip,
           fileName = ''b.wav'', node_isPlaying = True, connections = [''a''],
           color = ''#e5e7eb''\<rparr>"
  "audioContext (audioEngine playing_manager) = Some \<lparr>currentTime = 0, ctx_state = Running\<rparr>"
  "masterGain (audioEngine playing_manager) = Some 0"
  "activeNodes (audioEngine playing_manager) ''b'' = Some 1"
  "length (sources (audioEngine playing_manager)) = 2"
  by (simp_all add: playing_manager_def nm_playNode_def linked_manager_nodes
        play_connected_def updateNodeState_def playAudioBuffer_def stopNode_def engine0_def
        initialize_def new_AudioEngine_def Let_def)

lemma linked_manager_links: "links_symmetric linked_manager" "links_simple linked_manager"
proof -
  have m: "nodes linked_manager =
      [''a'' \<mapsto> \<lparr>node_ident = ''a'', pos_x = 0, pos_y = 0, audioBuffer = Some clip,
           fileName = ''a.wav'', node_isPlaying = False, connections = [''b''],
           color = ''#ffffff''\<rparr>,
       ''b'' \<mapsto> \<lparr>node_ident = ''b'', pos_x = 10, pos_y = 10, audioBuffer = Some clip,
           fileName = ''b.wav'', node_isPlaying = False, connections = [''a''],
           color = ''#e5e7eb''\<rparr>]"
    by (simp add: linked_manager_def two_nodes_def sample_manager_def createNode_def
        loadAudioFile_def new_NodeManager_def engine0_def initialize_def new_AudioEngine_def
        connectNodes_def updateNodeState_def Let_def fun_upd_twist)
  show "links_symmetric linked_manager"
    by (auto simp: links_symmetric_def m split: if_splits)
  show "links_simple linked_manager"
    by (auto simp: links_simple_def m split: if_splits)
qed

lemma two_nodes_facts:
  "nodes two_nodes ''a'' =
     Some \<lparr>node_ident = ''a'', pos_x = 0, pos_y = 0, audioBuffer = Some clip,
           fileName = ''a.wav'', node_isPlaying = False, connections = [],
           color = ''#ffffff''\<rparr>"
  "nodes two_nodes ''b'' =
     Some \<lparr>node_ident = ''b'', pos_x = 10, pos_y = 10, audioBuffer = Some clip,
           fileName = ''b.wav'', node_isPlaying = False, connections = [],
           color = ''#e5e7eb''\<rparr>"
  by (simp_all add: two_nodes_def sample_manager_def createNode_def
        loadAudioFile_def new_NodeManager_def engine0_def initialize_def new_AudioEngine_def
        Let_def)

lemma two_nodes_links: "links_symmetric two_nodes" "links_simple two_nodes"
proof -
  have m: "\<And>x node. nodes two_nodes x = Some node \<Longrightarrow> connections node = []"
    by (auto simp: two_nodes_def sample_manager_def createNode_def
        loadAudioFile_def new_NodeManager_def engine0_def initialize_def new_AudioEngine_def
        Let_def split: if_splits)
  show "links_symmetric two_nodes"
    by (auto simp: links_symmetric_def dest: m)
  show "links_simple two_nodes"
    by (auto simp: links_simple_def dest: m)
qed

text \<open>
  Claim C6 fails as stated for equal ids: \<^verbatim>\<open>connectNodes\<close> has no check for them, and
  connecting a node to itself appends its id to its own list twice.
\<close>

theorem self_link_counterexample:
  "connections_of sample_manager ''a'' = Some []
   \<and> connections_of (connectNodes sample_manager ''a'' ''a'') ''a'' = Some [''a'', ''a'']"
  by (simp add: connections_of_def sample_manager_def createNode_def loadAudioFile_def
        new_NodeManager_def engine0_def initialize_def new_AudioEngine_def connectNodes_def
        updateNodeState_def Let_def)

text \<open>
  Claim C6 as amended. In a manager whose links are symmetric and simple, for two
  existing nodes with different ids, \<^verbatim>\<open>connectNodes\<close> leaves the manager as it is when
  the link is present, and otherwise appends each id to the other node's list; either way
  each of the two lists the other exactly once afterwards, no other node changes, and the
  links stay symmetric and simple. The rejection of a self-connection is the caller's:
  \<^verbatim>\<open>handleConnectionStart\<close> calls \<^verbatim>\<open>connectNodes\<close> only for two different ids and
  leaves the manager alone when the same node is picked twice.
\<close>

theorem connect_adds_symmetric_link:
  assumes "links_symmetric nm" and "links_simple nm"
    and "nodes nm a = Some na" and "nodes nm b = Some nb" and "a \<noteq> b"
  shows "(\<exists>ca cb. connections_of (connectNodes nm a b) a = Some ca
            \<and> connections_of (connectNodes nm a b) b = Some cb
            \<and> count_list ca b = 1 \<and> count_list cb a = 1)
     \<and> (b \<in> set (connections na) \<longrightarrow> connectNodes nm a b = nm)
     \<and> (b \<notin> set (connections na) \<longrightarrow>
           connections_of (connectNodes nm a b) a = Some (connections na @ [b])
           \<and> connections_of (connectNodes nm a b) b = Some (connections nb @ [a]))
     \<and> (\<forall>x. x \<noteq> a \<and> x \<noteq> b \<longrightarrow> nodes (connectNodes nm a b) x = nodes nm x)
     \<and> links_symmetric (connectNodes nm a b) \<and> links_simple (connectNodes nm a b)
     \<and> handleConnectionStart True (Some a) nm b = (None, connectNodes nm a b)
     \<and> handleConnectionStart True (Some a) nm a = (None, nm)"
proof (intro conjI)
  have ca: "connections_of nm a = Some (connections na)"
    and cb: "connections_of nm b = Some (connections nb)"
    using assms(3,4) by (simp_all add: connections_of_def)
  have mirror: "a \<in> set (connections nb) \<longleftrightarrow> b \<in> set (connections na)"
    using assms(1) [unfolded links_symmetric_alt] ca cb by fastforce
  have once: "count_list (connections na) b \<le> 1" "count_list (connections nb) a \<le> 1"
    using assms(2) [unfolded links_simple_alt] ca cb assms(5) by auto
  show "\<exists>ca cb. connections_of (connectNodes nm a b) a = Some ca
            \<and> connections_of (connectNodes nm a b) b = Some cb
            \<and> count_list ca b = 1 \<and> count_list cb a = 1"
  proof (cases "b \<in> set (connections na)")
    case True
    then have "count_list (connections na) b \<noteq> 0" "count_list (connections nb) a \<noteq> 0"
      using mirror by (simp_all add: count_list_0_iff)
    with once True show ?thesis
      using ca cb assms(5) by (simp add: connections_of_connect)
  next
    case False
    then show ?thesis
      using ca cb assms(5) mirror by (simp add: connections_of_connect)
  qed
  show "b \<in> set (connections na) \<longrightarrow> connectNodes nm a b = nm"
    using assms(3) by (simp add: connectNodes_noop)
  show "b \<notin> set (connections na) \<longrightarrow>
           connections_of (connectNodes nm a b) a = Some (connections na @ [b])
           \<and> connections_of (connectNodes nm a b) b = Some (connections nb @ [a])"
    using ca cb assms(5) by (simp add: connections_of_connect)
  show "\<forall>x. x \<noteq> a \<and> x \<noteq> b \<longrightarrow> nodes (connectNodes nm a b) x = nodes nm x"
    by (simp add: connectNodes_def updateNodeState_nodes split: option.splits)
  show "links_symmetric (connectNodes nm a b)"
    using assms(1) by (rule connectNodes_links_symmetric)
  show "links_simple (connectNodes nm a b)"
    using assms(1,2) by (rule connectNodes_links_simple)
  show "handleConnectionStart True (Some a) nm b = (None, connectNodes nm a b)"
    using assms(5) by (simp add: handleConnectionStart_def)
  show "handleConnectionStart True (Some a) nm a = (None, nm)"
    by (simp add: handleConnectionStart_def)
qed

theorem connect_adds_symmetric_link_witness:
  "connections_of (connectNodes two_nodes ''a'' ''b'') ''a'' = Some [''b'']
   \<and> connections_of (connectNodes two_nodes ''a'' ''b'') ''b'' = Some [''a'']
   \<and> connectNodes linked_manager ''a'' ''b'' = linked_manager"
proof -
  have ne: "''a'' \<noteq> ''b''" by simp
  note t1 = connect_adds_symmetric_link [OF two_nodes_links two_nodes_facts ne]
  note t2 = connect_adds_symmetric_link [OF linked_manager_links linked_manager_nodes(1,2) ne]
  have "connectNodes linked_manager ''a'' ''b'' = linked_manager"
    using t2 by simp
  moreover have "connections_of (connectNodes two_nodes ''a'' ''b'') ''a'' = Some [''b'']
      \<and> connections_of (connectNodes two_nodes ''a'' ''b'') ''b'' = Some [''a'']"
    using t1 by simp
  ultimately show ?thesis by simp
qed

subsection \<open>Live playback units of the engine\<close>

lemma units_trackedD:
  assumes "units_tracked e"
  shows "s < length (sources e) \<Longrightarrow> sounding (sources e ! s) \<Longrightarrow>
           onended (sources e ! s) = Some n \<Longrightarrow> activeNodes e n = Some s"
    and "nodeStates e n = Some st \<Longrightarrow> isPlaying st \<Longrightarrow>
           \<exists>s. source st = Some s \<and> activeNodes e n = Some s"
    and "nodeStates e n = Some st \<Longrightarrow> isPaused st \<Longrightarrow> activeNodes e n = None"
  using assms unfolding units_tracked_def by blast+

lemma units_trackedI:
  assumes "\<And>s n. s < length (sources e) \<Longrightarrow> sounding (sources e ! s) \<Longrightarrow>
             onended (sources e ! s) = Some n \<Longrightarrow> activeNodes e n = Some s"
    and "\<And>n st. nodeStates e n = Some st \<Longrightarrow> isPlaying st \<Longrightarrow>
             \<exists>s. source st = Some s \<and> activeNodes e n = Some s"
    and "\<And>n st. nodeStates e n = Some st \<Longrightarrow> isPaused st \<Longrightarrow> activeNodes e n = None"
  shows "units_tracked e"
  unfolding units_tracked_def using assms by blast

lemma sounding_stop_source:
  "s < length srcs \<Longrightarrow> sounding (stop_source srcs c ! s) \<longleftrightarrow> sounding (srcs ! s) \<and> s \<noteq> c"
  by (auto simp: sounding_def stop_source_def nth_list_update)

lemma stopNode_activeNodes: "activeNodes (stopNode e n) = (activeNodes e)(n := None)"
  by (auto simp: stopNode_def Let_def split: option.splits)

lemma stopNode_sources:
  "sources (stopNode e n) =
     (case activeNodes e n of Some s \<Rightarrow> stop_source (sources e) s | None \<Rightarrow> sources e)"
  by (simp add: stopNode_def Let_def split: option.splits)

lemma stopNode_nodeStates:
  "nodeStates (stopNode e n) m =
     (if m = n then map_option (\<lambda>st. st\<lparr>isPlaying := False, isPaused := False, source := None\<rparr>)
                     (nodeStates e n)
      else nodeStates e m)"
  by (simp add: stopNode_def Let_def split: option.splits)

lemma units_tracked_stopNode:
  assumes "units_tracked e"
  shows "units_tracked (stopNode e n)"
  using assms unfolding units_tracked_def
  by (auto simp: stopNode_activeNodes stopNode_sources stopNode_nodeStates
        sounding_stop_source stop_source_fields split: option.splits if_splits)

lemma stopNode_silences:
  assumes "units_tracked e" and "s < length (sources e)"
    and "onended (sources e ! s) = Some n"
  shows "\<not> sounding (sources (stopNode e n) ! s)"
  using assms unfolding units_tracked_def
  by (auto simp: stopNode_sources sounding_stop_source split: option.splits)


lemma playAudioBuffer_unfold:
  assumes "audioContext e = Some ctx" and "masterGain e = Some master"
  shows "sources (playAudioBuffer e n buf lp) =
           sources (stopNode e n) @
           [\<lparr>buffer = buf, loop = lp, destination = Some (length (gains e)), started = Some 0,
             stopped = False, onended = Some n\<rparr>]"
    and "activeNodes (playAudioBuffer e n buf lp) = (activeNodes e)(n \<mapsto> length (sources e))"
    and "\<And>m. m \<noteq> n \<Longrightarrow> nodeStates (playAudioBuffer e n buf lp) m = nodeStates e m"
    and "\<exists>st. nodeStates (playAudioBuffer e n buf lp) n = Some st \<and> isPlaying st
            \<and> \<not> isPaused st \<and> source st = Some (length (sources e))"
  using assms
  by (auto simp: playAudioBuffer_def Let_def stopNode_activeNodes stopNode_nodeStates
        split: option.splits)

lemma units_tracked_playAudioBuffer:
  assumes "units_tracked e"
  shows "units_tracked (playAudioBuffer e n buf lp)"
proof (cases "audioContext e")
  case None
  then show ?thesis using assms by (simp add: playAudioBuffer_def)
next
  case (Some ctx)
  show ?thesis
  proof (cases "masterGain e")
    case None
    then show ?thesis using assms Some by (simp add: playAudioBuffer_def)
  next
    case (Some master)
    note u = playAudioBuffer_unfold [OF \<open>audioContext e = Some ctx\<close> Some,
                   where n = n and buf = buf and lp = lp]
    let ?e' = "playAudioBuffer e n buf lp"
    have t1: "units_tracked (stopNode e n)"
      using assms by (rule units_tracked_stopNode)
    have len: "length (sources ?e') = Suc (length (sources e))"
      by (simp add: u(1))
    have A: "activeNodes ?e' m = Some s"
      if "s < length (sources ?e')" "sounding (sources ?e' ! s)"
        "onended (sources ?e' ! s) = Some m" for s m
    proof (cases "s < length (sources e)")
      case True
      then have old: "sounding (sources (stopNode e n) ! s)"
          "onended (sources (stopNode e n) ! s) = Some m"
        using that by (simp_all add: u(1) nth_append)
      then have "activeNodes (stopNode e n) m = Some s"
        using units_trackedD(1) [OF t1, of s m] True by simp
      then show ?thesis
        by (auto simp: u(2) stopNode_activeNodes split: if_splits)
    next
      case False
      then have "s = length (sources e)" using that(1) len by simp
      then have "m = n" using that by (simp add: u(1) nth_append)
      then show ?thesis using \<open>s = length (sources e)\<close> by (simp add: u(2))
    qed
    have B: "\<exists>s. source st = Some s \<and> activeNodes ?e' m = Some s"
      if "nodeStates ?e' m = Some st" "isPlaying st" for m st
    proof (cases "m = n")
      case True
      then show ?thesis using that u(4) by (auto simp: u(2))
    next
      case False
      then show ?thesis
        using that units_trackedD(2) [OF assms, of m st] by (simp add: u(2) u(3))
    qed
    have C: "activeNodes ?e' m = None"
      if "nodeStates ?e' m = Some st" "isPaused st" for m st
    proof (cases "m = n")
      case True
      then show ?thesis using that u(4) by auto
    next
      case False
      then show ?thesis
        using that units_trackedD(3) [OF assms, of m st] by (simp add: u(2) u(3))
    qed
    show ?thesis
      using A B C by (intro units_trackedI) blast+
  qed
qed


lemma units_tracked_pauseNode:
  assumes "units_tracked e"
  shows "units_tracked (pauseNode e n)"
proof (cases "nodeStates e n")
  case None
  then show ?thesis using assms by (simp add: pauseNode_def)
next
  case (Some st)
  show ?thesis
  proof (cases "isPlaying st \<and> \<not> isPaused st")
    case False
    then show ?thesis using assms Some by (auto simp: pauseNode_def)
  next
    case True
    then obtain s0 where s0: "source st = Some s0" "activeNodes e n = Some s0"
      using units_trackedD(2) [OF assms Some] by blast
    let ?e' = "pauseNode e n"
    have src: "sources ?e' = stop_source (sources e) s0"
      and act: "activeNodes ?e' = (activeNodes e)(n := None)"
      and st': "\<And>m. m \<noteq> n \<Longrightarrow> nodeStates ?e' m = nodeStates e m"
      and stn: "\<exists>st'. nodeStates ?e' n = Some st' \<and> \<not> isPlaying st'"
      using Some True s0 by (simp_all add: pauseNode_def)
    show ?thesis
    proof (rule units_trackedI)
      fix s m
      assume a: "s < length (sources ?e')" "sounding (sources ?e' ! s)"
        "onended (sources ?e' ! s) = Some m"
      then have old: "s < length (sources e)" "sounding (sources e ! s)" "s \<noteq> s0"
          "onended (sources e ! s) = Some m"
        by (simp_all add: src sounding_stop_source stop_source_fields)
      from units_trackedD(1) [OF assms old(1,2,4)] have "activeNodes e m = Some s" .
      with old(3) s0(2) show "activeNodes ?e' m = Some s"
        by (auto simp: act)
    next
      fix m st'
      assume a: "nodeStates ?e' m = Some st'" "isPlaying st'"
      then have "m \<noteq> n" using stn by auto
      with a units_trackedD(2) [OF assms, of m st']
      show "\<exists>s. source st' = Some s \<and> activeNodes ?e' m = Some s"
        by (simp add: st' act)
    next
      fix m st'
      assume a: "nodeStates ?e' m = Some st'" "isPaused st'"
      show "activeNodes ?e' m = None"
      proof (cases "m = n")
        case True
        then show ?thesis by (simp add: act)
      next
        case False
        with a units_trackedD(3) [OF assms, of m st'] show ?thesis
          by (simp add: st' act)
      qed
    qed
  qed
qed

lemma units_tracked_resumeNode:
  assumes "units_tracked e"
  shows "units_tracked (resumeNode e n buf)"
proof (cases "\<exists>st ctx master. nodeStates e n = Some st \<and> audioContext e = Some ctx
                 \<and> masterGain e = Some master \<and> isPaused st")
  case False
  then have "resumeNode e n buf = e"
    by (auto simp: resumeNode_def split: option.splits)
  then show ?thesis using assms by simp
next
  case True
  then obtain st ctx master where h: "nodeStates e n = Some st" "audioContext e = Some ctx"
      "masterGain e = Some master" "isPaused st"
    by blast
  have none: "activeNodes e n = None"
    using units_trackedD(3) [OF assms h(1,4)] .
  let ?e' = "resumeNode e n buf"
  have src: "\<exists>src. sources ?e' = sources e @ [src] \<and> sounding src \<and> onended src = Some n"
    and act: "activeNodes ?e' = (activeNodes e)(n \<mapsto> length (sources e))"
    and st': "\<And>m. m \<noteq> n \<Longrightarrow> nodeStates ?e' m = nodeStates e m"
    and stn: "\<exists>st'. nodeStates ?e' n = Some st' \<and> \<not> isPaused st'
                \<and> source st' = Some (length (sources e))"
    using h by (simp_all add: resumeNode_def Let_def sounding_def)
  from src obtain new where new: "sources ?e' = sources e @ [new]" "onended new = Some n"
    by blast
  show ?thesis
  proof (rule units_trackedI)
    fix s m
    assume a: "s < length (sources ?e')" "sounding (sources ?e' ! s)"
      "onended (sources ?e' ! s) = Some m"
    show "activeNodes ?e' m = Some s"
    proof (cases "s < length (sources e)")
      case True
      with a have "activeNodes e m = Some s"
        using units_trackedD(1) [OF assms, of s m] by (simp add: new nth_append)
      with none show ?thesis by (auto simp: act)
    next
      case False
      with a(1) have s: "s = length (sources e)" by (simp add: new)
      with a(3) new have "m = n" by simp
      then show ?thesis using s by (simp add: act)
    qed
  next
    fix m st'
    assume a: "nodeStates ?e' m = Some st'" "isPlaying st'"
    show "\<exists>s. source st' = Some s \<and> activeNodes ?e' m = Some s"
    proof (cases "m = n")
      case True
      with a stn show ?thesis by (auto simp: act)
    next
      case False
      with a units_trackedD(2) [OF assms, of m st'] show ?thesis
        by (simp add: st' act)
    qed
  next
    fix m st'
    assume a: "nodeStates ?e' m = Some st'" "isPaused st'"
    show "activeNodes ?e' m = None"
    proof (cases "m = n")
      case True
      with a stn show ?thesis by auto
    next
      case False
      with a units_trackedD(3) [OF assms, of m st'] show ?thesis
        by (simp add: st' act)
    qed
  qed
qed

lemma units_tracked_advance_clock:
  "units_tracked e \<Longrightarrow> units_tracked (advance_clock e t)"
  by (simp add: units_tracked_def advance_clock_def split: option.splits)

lemma units_tracked_ended_event:
  assumes "units_tracked e" and "timely e (Ended s0)"
  shows "units_tracked (ended_event e s0)"
proof -
  from assms(2) obtain n where h: "s0 < length (sources e)" "onended (sources e ! s0) = Some n"
      "activeNodes e n = Some s0 \<or> activeNodes e n = None"
    by (auto split: option.splits)
  let ?e' = "ended_event e s0"
  have src: "sources ?e' = stop_source (sources e) s0"
    and act: "activeNodes ?e' = (activeNodes e)(n := None)"
    and st': "\<And>m. m \<noteq> n \<Longrightarrow> nodeStates ?e' m = nodeStates e m"
    and stn: "\<And>st'. nodeStates ?e' n = Some st' \<Longrightarrow> \<not> isPlaying st'"
    using h by (auto simp: ended_event_def Let_def onended_handler_def split: option.splits)
  show ?thesis
  proof (rule units_trackedI)
    fix s m
    assume a: "s < length (sources ?e')" "sounding (sources ?e' ! s)"
      "onended (sources ?e' ! s) = Some m"
    then have old: "s < length (sources e)" "sounding (sources e ! s)" "s \<noteq> s0"
        "onended (sources e ! s) = Some m"
      by (simp_all add: src sounding_stop_source stop_source_fields)
    from units_trackedD(1) [OF assms(1) old(1,2,4)] have "activeNodes e m = Some s" .
    with old(3) h(3) show "activeNodes ?e' m = Some s"
      by (auto simp: act)
  next
    fix m st'
    assume a: "nodeStates ?e' m = Some st'" "isPlaying st'"
    then have "m \<noteq> n" using stn by auto
    with a units_trackedD(2) [OF assms(1), of m st']
    show "\<exists>s. source st' = Some s \<and> activeNodes ?e' m = Some s"
      by (simp add: st' act)
  next
    fix m st'
    assume a: "nodeStates ?e' m = Some st'" "isPaused st'"
    show "activeNodes ?e' m = None"
    proof (cases "m = n")
      case True
      then show ?thesis by (simp add: act)
    next
      case False
      with a units_trackedD(3) [OF assms(1), of m st'] show ?thesis
        by (simp add: st' act)
    qed
  qed
qed

lemma units_tracked_step:
  "units_tracked e \<Longrightarrow> timely e ev \<Longrightarrow> units_tracked (engine_step e ev)"
  by (cases ev)
     (simp_all add: units_tracked_playAudioBuffer units_tracked_pauseNode
        units_tracked_stopNode units_tracked_resumeNode units_tracked_advance_clock
        units_tracked_ended_event del: timely.simps)

lemma units_tracked_run:
  "units_tracked e \<Longrightarrow> timely_run e evs \<Longrightarrow> units_tracked (engine_run e evs)"
  unfolding engine_run_def
  by (induction evs arbitrary: e) (simp_all add: units_tracked_step del: timely.simps)

lemma units_tracked_engine0: "units_tracked engine0"
  by (simp add: units_tracked_def engine0_def initialize_def new_AudioEngine_def)

lemma single_valued_list:
  assumes "distinct xs" and "\<And>x. x \<in> set xs \<Longrightarrow> x = c"
  shows "length xs \<le> 1"
proof -
  have "set xs \<subseteq> {c}" using assms(2) by auto
  then have "card (set xs) \<le> card {c}" by (intro card_mono) simp_all
  then show ?thesis using assms(1) by (simp add: distinct_card)
qed

lemma units_tracked_one_live:
  assumes "units_tracked e"
  shows "length (live_units e n) \<le> 1"
proof (cases "activeNodes e n")
  case None
  have "live_units e n = []"
    unfolding live_units_def using units_trackedD(1) [OF assms, of _ n] None
    by (auto simp: filter_empty_conv)
  then show ?thesis by simp
next
  case (Some s0)
  show ?thesis
  proof (rule single_valued_list [where c = s0])
    show "distinct (live_units e n)" by (simp add: live_units_def)
    fix x assume "x \<in> set (live_units e n)"
    then show "x = s0"
      using units_trackedD(1) [OF assms, of x n] Some by (auto simp: live_units_def)
  qed
qed

lemma timely_run_one_live:
  "timely_run engine0 evs \<Longrightarrow> length (live_units (engine_run engine0 evs) n) \<le> 1"
  by (intro units_tracked_one_live units_tracked_run units_tracked_engine0)

text \<open>
  Claim C4 does not hold of the engine. The \<^verbatim>\<open>onended\<close> handler of a unit closes over
  the node id only, so the \<^verbatim>\<open>ended\<close> event of a unit that \<^verbatim>\<open>playAudioBuffer\<close> has
  replaced deletes the registration of its successor. Node \<open>a\<close> is played twice, the
  \<^verbatim>\<open>ended\<close> event of the first unit is delivered, and the node is played again: the third
  play finds no registered unit to stop, and the second and third units sound together.
\<close>

theorem stale_ended_event_two_live_units:
  "live_units (engine_run engine0
      [Play ''a'' clip True, Play ''a'' clip True, Ended 0, Play ''a'' clip True]) ''a'' = [1, 2]"
  by (simp add: live_units_def engine_run_def engine0_def initialize_def new_AudioEngine_def
        playAudioBuffer_def stopNode_def ended_event_def onended_handler_def stop_source_def
        sounding_def Let_def upt_rec)

subsection \<open>Group play, group stop and removal on the sounding units\<close>

lemma units_tracked_silent:
  assumes "units_tracked e" and "activeNodes e n = None"
  shows "live_units e n = []"
  unfolding live_units_def using units_trackedD(1) [OF assms(1), of _ n] assms(2)
  by (auto simp: filter_empty_conv)

lemma units_tracked_stop_connected:
  "units_tracked (audioEngine nm) \<Longrightarrow> units_tracked (audioEngine (stop_connected nm c))"
  by (simp add: units_tracked_stopNode)

lemma units_tracked_stop_all:
  "units_tracked (audioEngine nm) \<Longrightarrow> units_tracked (audioEngine (foldl stop_connected nm cs))"
  by (induction cs arbitrary: nm) (simp_all add: units_tracked_stopNode)

lemma units_tracked_nm_stopNode:
  "units_tracked (audioEngine nm) \<Longrightarrow> units_tracked (audioEngine (nm_stopNode nm a))"
  by (simp add: nm_stopNode_unfold units_tracked_stop_all units_tracked_stopNode)

lemma nm_stopNode_silences:
  assumes "units_tracked (audioEngine nm)"
  shows "live_units (audioEngine (nm_stopNode nm a)) a = []"
    and "nodes nm a = Some na \<Longrightarrow> b \<in> set (connections na) \<Longrightarrow>
           live_units (audioEngine (nm_stopNode nm a)) b = []"
proof -
  have t: "units_tracked (audioEngine (nm_stopNode nm a))"
    using assms by (rule units_tracked_nm_stopNode)
  show "live_units (audioEngine (nm_stopNode nm a)) a = []"
    using nm_stopNode_effect(1) [of nm a]
    by (intro units_tracked_silent [OF t]) (simp add: stop_effect_def)
  show "live_units (audioEngine (nm_stopNode nm a)) b = []"
    if "nodes nm a = Some na" "b \<in> set (connections na)"
    using nm_stopNode_effect(2) [OF that]
    by (intro units_tracked_silent [OF t]) (simp add: stop_effect_def)
qed

lemma removeNode_silences:
  assumes "units_tracked (audioEngine nm)" and "nodes nm n = Some node"
  shows "live_units (audioEngine (removeNode nm n)) n = []"
  using nm_stopNode_silences(1) [OF assms(1), of n]
  by (simp add: removeNode_engine [OF assms(2)])

lemma units_tracked_play_connected:
  "units_tracked (audioEngine nm) \<Longrightarrow> units_tracked (audioEngine (play_connected lp nm c))"
  by (simp add: play_connected_def units_tracked_playAudioBuffer split: option.splits)

lemma units_tracked_play_all:
  "units_tracked (audioEngine nm) \<Longrightarrow>
   units_tracked (audioEngine (foldl (play_connected lp) nm cs))"
  by (induction cs arbitrary: nm) (simp_all add: units_tracked_play_connected)

lemma units_tracked_nm_playNode:
  "units_tracked (audioEngine nm) \<Longrightarrow> units_tracked (audioEngine (nm_playNode nm a lp))"
  by (simp add: nm_playNode_def units_tracked_play_all units_tracked_playAudioBuffer
        split: option.splits)

lemma units_ownedD:
  "units_owned e \<Longrightarrow> activeNodes e n = Some s \<Longrightarrow>
   s < length (sources e) \<and> onended (sources e ! s) = Some n"
  unfolding units_owned_def by blast

lemma units_owned_stopNode: "units_owned e \<Longrightarrow> units_owned (stopNode e n)"
  unfolding units_owned_def
  by (auto simp: stopNode_activeNodes stopNode_source_fields split: if_splits)

lemma units_owned_playAudioBuffer:
  assumes "units_owned e"
  shows "units_owned (playAudioBuffer e n buf lp)"
proof (cases "\<exists>ctx master. audioContext e = Some ctx \<and> masterGain e = Some master")
  case False
  then have "playAudioBuffer e n buf lp = e"
    by (auto simp: playAudioBuffer_def split: option.splits)
  then show ?thesis using assms by simp
next
  case True
  then obtain ctx master where h: "audioContext e = Some ctx" "masterGain e = Some master"
    by blast
  note u = playAudioBuffer_unfold [OF h, where n = n and buf = buf and lp = lp]
  show ?thesis
    unfolding units_owned_def
  proof (intro allI impI)
    fix m s
    assume a: "activeNodes (playAudioBuffer e n buf lp) m = Some s"
    show "s < length (sources (playAudioBuffer e n buf lp))
        \<and> onended (sources (playAudioBuffer e n buf lp) ! s) = Some m"
    proof (cases "m = n")
      case True
      with a have "s = length (sources e)" by (simp add: u(2))
      with True show ?thesis by (simp add: u(1) nth_append)
    next
      case False
      with a have "activeNodes e m = Some s" by (simp add: u(2))
      from units_ownedD [OF assms this] show ?thesis
        by (simp add: u(1) nth_append stopNode_source_fields)
    qed
  qed
qed

lemma live_units_stop_source_other:
  assumes "c < length srcs \<longrightarrow> onended (srcs ! c) \<noteq> Some b"
  shows "filter (\<lambda>s. sounding (stop_source srcs c ! s) \<and> onended (stop_source srcs c ! s) = Some b)
           [0..<length srcs]
       = filter (\<lambda>s. sounding (srcs ! s) \<and> onended (srcs ! s) = Some b) [0..<length srcs]"
  using assms
  by (intro filter_cong) (auto simp: sounding_stop_source stop_source_fields)

lemma live_units_stopNode_other:
  assumes "units_owned e" and "x \<noteq> b"
  shows "live_units (stopNode e x) b = live_units e b"
proof (cases "activeNodes e x")
  case None
  then show ?thesis by (simp add: live_units_def stopNode_sources)
next
  case (Some c)
  from units_ownedD [OF assms(1) Some] assms(2)
  have "c < length (sources e) \<longrightarrow> onended (sources e ! c) \<noteq> Some b" by simp
  from live_units_stop_source_other [OF this] Some show ?thesis
    by (simp add: live_units_def stopNode_sources)
qed

lemma live_units_playAudioBuffer_other:
  assumes "units_owned e" and "x \<noteq> b"
  shows "live_units (playAudioBuffer e x buf lp) b = live_units e b"
proof (cases "\<exists>ctx master. audioContext e = Some ctx \<and> masterGain e = Some master")
  case False
  then have "playAudioBuffer e x buf lp = e"
    by (auto simp: playAudioBuffer_def split: option.splits)
  then show ?thesis by simp
next
  case True
  then obtain ctx master where h: "audioContext e = Some ctx" "masterGain e = Some master"
    by blast
  note u = playAudioBuffer_unfold [OF h, where n = x and buf = buf and lp = lp]
  have "live_units (playAudioBuffer e x buf lp) b = live_units (stopNode e x) b"
    using assms(2) by (auto simp: live_units_def u(1) nth_append intro!: filter_cong)
  then show ?thesis using live_units_stopNode_other [OF assms] by simp
qed

lemma live_units_playAudioBuffer_self:
  assumes "audioContext e = Some ctx" and "masterGain e = Some master"
  shows "length (sources e) \<in> set (live_units (playAudioBuffer e b buf lp) b)"
  using playAudioBuffer_unfold(1) [OF assms, of b buf lp]
  by (simp add: live_units_def nth_append sounding_def)


lemma units_owned_play_connected:
  "units_owned (audioEngine nm) \<Longrightarrow> units_owned (audioEngine (play_connected lp nm c))"
  by (simp add: play_connected_def units_owned_playAudioBuffer split: option.splits)

lemma units_owned_play_all:
  "units_owned (audioEngine nm) \<Longrightarrow> units_owned (audioEngine (foldl (play_connected lp) nm cs))"
  by (induction cs arbitrary: nm) (simp_all add: units_owned_play_connected)

lemma play_connected_live_units:
  assumes "units_owned (audioEngine nm)" and "nodes nm b = Some nb" and "node_isPlaying nb"
  shows "live_units (audioEngine (play_connected lp nm x)) b = live_units (audioEngine nm) b"
proof (cases "x = b")
  case True
  then show ?thesis using assms(2,3) by (simp add: play_connected_flagged)
next
  case False
  then show ?thesis
    using assms(1)
    by (simp add: play_connected_def live_units_playAudioBuffer_other split: option.splits)
qed

lemma play_connected_keeps_flag:
  assumes "nodes nm b = Some nb" and "node_isPlaying nb"
  shows "nodes (play_connected lp nm x) b = Some nb"
  using assms by (cases "x = b") (simp_all add: play_connected_flagged play_connected_other)

lemma play_all_live_units:
  assumes "units_owned (audioEngine nm)" and "nodes nm b = Some nb" and "node_isPlaying nb"
  shows "live_units (audioEngine (foldl (play_connected lp) nm cs)) b
           = live_units (audioEngine nm) b"
  using assms
proof (induction cs arbitrary: nm)
  case Nil
  then show ?case by simp
next
  case (Cons c cs)
  have "live_units (audioEngine (foldl (play_connected lp) (play_connected lp nm c) cs)) b
          = live_units (audioEngine (play_connected lp nm c)) b"
    using Cons.prems
    by (intro Cons.IH units_owned_play_connected play_connected_keeps_flag)
  then show ?case
    using play_connected_live_units [OF Cons.prems, of lp c] by simp
qed

lemma play_connected_starts:
  assumes "nodes nm b = Some nb" and "audioBuffer nb = Some buf" and "\<not> node_isPlaying nb"
    and "audioContext (audioEngine nm) = Some ctx" and "masterGain (audioEngine nm) = Some master"
  shows "live_units (audioEngine (play_connected lp nm b)) b \<noteq> []"
    and "nodes (play_connected lp nm b) b = Some (nb\<lparr>node_isPlaying := True\<rparr>)"
  using assms live_units_playAudioBuffer_self [OF assms(4,5), of b buf lp]
  by (auto simp: play_connected_def updateNodeState_nodes)

lemma play_all_starts:
  assumes "b \<in> set cs" and "nodes nm b = Some nb" and "audioBuffer nb = Some buf"
    and "\<not> node_isPlaying nb"
    and "audioContext (audioEngine nm) = Some ctx" and "masterGain (audioEngine nm) = Some master"
    and "units_owned (audioEngine nm)"
  shows "live_units (audioEngine (foldl (play_connected lp) nm cs)) b \<noteq> []"
  using assms
proof (induction cs arbitrary: nm)
  case Nil
  then show ?case by simp
next
  case (Cons c cs)
  show ?case
  proof (cases "c = b")
    case True
    note st = play_connected_starts [OF Cons.prems(2-6), of lp]
    have "live_units (audioEngine (foldl (play_connected lp) (play_connected lp nm b) cs)) b
            = live_units (audioEngine (play_connected lp nm b)) b"
      by (rule play_all_live_units [OF units_owned_play_connected [OF Cons.prems(7)] st(2)])
         simp
    with st(1) True show ?thesis by simp
  next
    case False
    then have "b \<in> set cs" using Cons.prems(1) by simp
    moreover have "nodes (play_connected lp nm c) b = Some nb"
      using False Cons.prems(2) by (simp add: play_connected_other)
    moreover have "units_owned (audioEngine (play_connected lp nm c))"
      using Cons.prems(7) by (rule units_owned_play_connected)
    ultimately have "live_units (audioEngine (foldl (play_connected lp)
                        (play_connected lp nm c) cs)) b \<noteq> []"
      using Cons.prems(3-6) by (intro Cons.IH) simp_all
    then show ?thesis by simp
  qed
qed

lemma nm_playNode_live_units:
  assumes own: "units_owned (audioEngine nm)"
    and a: "nodes nm a = Some na" "audioBuffer na = Some bufa"
    and ctx: "audioContext (audioEngine nm) = Some ctx" "masterGain (audioEngine nm) = Some master"
  shows "live_units (audioEngine (nm_playNode nm a lp)) a \<noteq> []"
    and "b \<in> set (connections na) \<Longrightarrow> b \<noteq> a \<Longrightarrow> nodes nm b = Some nb \<Longrightarrow>
           audioBuffer nb = Some bufb \<Longrightarrow> \<not> node_isPlaying nb \<Longrightarrow>
           live_units (audioEngine (nm_playNode nm a lp)) b \<noteq> []"
    and "b \<noteq> a \<Longrightarrow> nodes nm b = Some nb \<Longrightarrow> node_isPlaying nb \<Longrightarrow>
           live_units (audioEngine (nm_playNode nm a lp)) b = live_units (audioEngine nm) b"
proof -
  let ?e1 = "playAudioBuffer (audioEngine nm) a bufa lp"
  let ?nm0 = "updateNodeState (nm\<lparr>audioEngine := ?e1\<rparr>) a (\<lambda>node. node\<lparr>node_isPlaying := True\<rparr>)"
  have unfold: "nm_playNode nm a lp = foldl (play_connected lp) ?nm0 (connections na)"
    using a by (simp add: nm_playNode_def)
  have own0: "units_owned (audioEngine ?nm0)"
    using own by (simp add: units_owned_playAudioBuffer)
  have ctx0: "audioContext (audioEngine ?nm0) = Some ctx" "masterGain (audioEngine ?nm0) = Some master"
    using ctx by simp_all
  have a0: "nodes ?nm0 a = Some (na\<lparr>node_isPlaying := True\<rparr>)"
    using a by (simp add: updateNodeState_nodes)
  have "live_units (audioEngine ?nm0) a \<noteq> []"
    using live_units_playAudioBuffer_self [OF ctx, of a bufa lp] by auto
  moreover have "live_units (audioEngine (foldl (play_connected lp) ?nm0 (connections na))) a
      = live_units (audioEngine ?nm0) a"
    by (rule play_all_live_units [OF own0 a0]) simp
  ultimately show "live_units (audioEngine (nm_playNode nm a lp)) a \<noteq> []"
    by (simp add: unfold)
  show "live_units (audioEngine (nm_playNode nm a lp)) b \<noteq> []"
    if "b \<in> set (connections na)" "b \<noteq> a" "nodes nm b = Some nb" "audioBuffer nb = Some bufb"
      "\<not> node_isPlaying nb"
  proof -
    have "nodes ?nm0 b = Some nb" using that by (simp add: updateNodeState_nodes)
    from play_all_starts [OF that(1) this that(4,5) ctx0 own0, of lp]
    show ?thesis by (simp add: unfold)
  qed
  show "live_units (audioEngine (nm_playNode nm a lp)) b = live_units (audioEngine nm) b"
    if "b \<noteq> a" "nodes nm b = Some nb" "node_isPlaying nb"
  proof -
    have "nodes ?nm0 b = Some nb" using that by (simp add: updateNodeState_nodes)
    from play_all_live_units [OF own0 this that(3), of lp "connections na"]
    have "live_units (audioEngine (nm_playNode nm a lp)) b = live_units ?e1 b"
      by (simp add: unfold)
    also have "\<dots> = live_units (audioEngine nm) b"
      using own that(1) by (auto intro: live_units_playAudioBuffer_other)
    finally show ?thesis .
  qed
qed

lemma units_owned_nm_playNode:
  "units_owned (audioEngine nm) \<Longrightarrow> units_owned (audioEngine (nm_playNode nm a lp))"
  by (simp add: nm_playNode_def units_owned_play_all units_owned_playAudioBuffer
        split: option.splits)


text \<open>
  Claim C3 as amended. Let \<open>b\<close> be a neighbour of \<open>a\<close>, other than \<open>a\<close> itself, both
  with a decoded clip, in an initialised engine whose registered units belong to their
  nodes, and let the manager's flag of \<open>b\<close> say whether \<open>b\<close> is playing, that is, has a
  sounding unit. The group play on \<open>a\<close> plays \<open>a\<close>. If \<open>b\<close> is not playing, it plays
  \<open>b\<close> too, with the loop flag given for \<open>a\<close>: the engine holds for \<open>b\<close> a playing
  state record and a registered new unit with \<open>b\<close>'s clip and that flag, started at 0,
  and \<open>b\<close> has a sounding unit afterwards. If \<open>b\<close> is playing, its node record, its
  state record, its registered unit and its sounding units stay as they were. In an engine
  where every sounding unit is registered, the group stop on \<open>a\<close> leaves \<open>a\<close> and
  every neighbour without a sounding unit, whatever their state before.
\<close>

theorem group_play_and_stop:
  "(units_owned (audioEngine nm)
      \<and> nodes nm a = Some na \<and> audioBuffer na = Some bufa \<and> b \<in> set (connections na) \<and> b \<noteq> a
      \<and> nodes nm b = Some nb \<and> audioBuffer nb = Some bufb
      \<and> audioContext (audioEngine nm) = Some ctx \<and> masterGain (audioEngine nm) = Some master
      \<and> (node_isPlaying nb \<longleftrightarrow> live_units (audioEngine nm) b \<noteq> [])
    \<longrightarrow> play_effect lp bufa (length (sources (audioEngine nm))) (nm_playNode nm a lp) a
      \<and> live_units (audioEngine (nm_playNode nm a lp)) a \<noteq> []
      \<and> (live_units (audioEngine nm) b = [] \<longrightarrow>
           play_effect lp bufb (length (sources (audioEngine nm))) (nm_playNode nm a lp) b
           \<and> live_units (audioEngine (nm_playNode nm a lp)) b \<noteq> [])
      \<and> (live_units (audioEngine nm) b \<noteq> [] \<longrightarrow>
           nodes (nm_playNode nm a lp) b = Some nb
           \<and> nodeStates (audioEngine (nm_playNode nm a lp)) b = nodeStates (audioEngine nm) b
           \<and> activeNodes (audioEngine (nm_playNode nm a lp)) b = activeNodes (audioEngine nm) b
           \<and> live_units (audioEngine (nm_playNode nm a lp)) b = live_units (audioEngine nm) b))
   \<and> (units_tracked (audioEngine nm) \<and> nodes nm a = Some na \<and> b \<in> set (connections na)
    \<longrightarrow> stop_effect (nm_stopNode nm a) a \<and> stop_effect (nm_stopNode nm a) b
      \<and> live_units (audioEngine (nm_stopNode nm a)) a = []
      \<and> live_units (audioEngine (nm_stopNode nm a)) b = []
      \<and> (\<forall>s. activeNodes (audioEngine nm) b = Some s \<and> s < length (sources (audioEngine nm))
            \<longrightarrow> stopped (sources (audioEngine (nm_stopNode nm a)) ! s)))"
proof (intro conjI impI)
  assume h: "units_owned (audioEngine nm)
      \<and> nodes nm a = Some na \<and> audioBuffer na = Some bufa \<and> b \<in> set (connections na) \<and> b \<noteq> a
      \<and> nodes nm b = Some nb \<and> audioBuffer nb = Some bufb
      \<and> audioContext (audioEngine nm) = Some ctx \<and> masterGain (audioEngine nm) = Some master
      \<and> (node_isPlaying nb \<longleftrightarrow> live_units (audioEngine nm) b \<noteq> [])"
  then have own: "units_owned (audioEngine nm)"
    and a: "nodes nm a = Some na" "audioBuffer na = Some bufa"
    and b: "b \<in> set (connections na)" "b \<noteq> a" "nodes nm b = Some nb" "audioBuffer nb = Some bufb"
    and ctx: "audioContext (audioEngine nm) = Some ctx" "masterGain (audioEngine nm) = Some master"
    and flag: "node_isPlaying nb \<longleftrightarrow> live_units (audioEngine nm) b \<noteq> []"
    by simp_all
  note book = group_play_bookkeeping [THEN conjunct1, rule_format, of nm a na bufa b nb bufb ctx master lp]
  have pre: "nodes nm a = Some na \<and> audioBuffer na = Some bufa \<and> b \<in> set (connections na) \<and> b \<noteq> a
      \<and> nodes nm b = Some nb \<and> audioBuffer nb = Some bufb
      \<and> audioContext (audioEngine nm) = Some ctx \<and> masterGain (audioEngine nm) = Some master"
    using a b ctx by simp
  show "play_effect lp bufa (length (sources (audioEngine nm))) (nm_playNode nm a lp) a"
    using book [OF pre] by simp
  show "live_units (audioEngine (nm_playNode nm a lp)) a \<noteq> []"
    using own a ctx by (rule nm_playNode_live_units(1))
  show "play_effect lp bufb (length (sources (audioEngine nm))) (nm_playNode nm a lp) b"
    if "live_units (audioEngine nm) b = []"
    using book [OF pre] that flag by simp
  show "live_units (audioEngine (nm_playNode nm a lp)) b \<noteq> []"
    if "live_units (audioEngine nm) b = []"
    using nm_playNode_live_units(2) [OF own a ctx b] that flag by simp
  assume playing: "live_units (audioEngine nm) b \<noteq> []"
  then have f: "node_isPlaying nb" using flag by simp
  show "nodes (nm_playNode nm a lp) b = Some nb"
    and "nodeStates (audioEngine (nm_playNode nm a lp)) b = nodeStates (audioEngine nm) b"
    and "activeNodes (audioEngine (nm_playNode nm a lp)) b = activeNodes (audioEngine nm) b"
    using book [OF pre] f by simp_all
  show "live_units (audioEngine (nm_playNode nm a lp)) b = live_units (audioEngine nm) b"
    using nm_playNode_live_units(3) [OF own a ctx b(2,3) f] .
next
  assume h: "units_tracked (audioEngine nm) \<and> nodes nm a = Some na \<and> b \<in> set (connections na)"
  note book = group_play_bookkeeping [THEN conjunct2, rule_format, of nm a na b]
  show "stop_effect (nm_stopNode nm a) a" and "stop_effect (nm_stopNode nm a) b"
    using book h by simp_all
  show "live_units (audioEngine (nm_stopNode nm a)) a = []"
    using h by (simp add: nm_stopNode_silences(1))
  show "live_units (audioEngine (nm_stopNode nm a)) b = []"
    using h nm_stopNode_silences(2) [of nm a na b] by simp
  show "\<forall>s. activeNodes (audioEngine nm) b = Some s \<and> s < length (sources (audioEngine nm))
            \<longrightarrow> stopped (sources (audioEngine (nm_stopNode nm a)) ! s)"
    using h by (auto intro: nm_stopNode_stops_registered)
qed

text \<open>
  Two states the amended claim leaves aside. The manager's flag is not cleared when a unit
  ends by itself: after both units have ended, the group play on \<open>a\<close> replays \<open>a\<close> and
  skips the silent \<open>b\<close>. And a unit whose registration a late \<^verbatim>\<open>ended\<close> event has
  deleted is out of reach of the engine: the group stop on \<open>a\<close>, and the removal of
  \<open>b\<close>, leave that unit of \<open>b\<close> sounding.
\<close>

lemmas run_defs =
  nm_playNode_def play_connected_def updateNodeState_def playAudioBuffer_def stopNode_def
  engine0_def initialize_def new_AudioEngine_def Let_def live_units_def sounding_def
  stop_source_def upt_rec deliver_def engine_run_def ended_event_def onended_handler_def
  nm_stopNode_def stop_connected_def

lemma stale_flag_skips_neighbour:
  "live_units (audioEngine ended_manager) ''b'' = []
   \<and> map_option node_isPlaying (nodes ended_manager ''b'') = Some True
   \<and> live_units (audioEngine (nm_playNode ended_manager ''a'' False)) ''a'' = [2]
   \<and> live_units (audioEngine (nm_playNode ended_manager ''a'' False)) ''b'' = []"
  by (simp add: ended_manager_def linked_manager_nodes run_defs)

lemma orphan_survives_group_stop:
  "live_units (audioEngine orphan_manager) ''b'' = [2]
   \<and> activeNodes (audioEngine orphan_manager) ''b'' = None
   \<and> live_units (audioEngine (nm_stopNode orphan_manager ''a'')) ''a'' = []
   \<and> live_units (audioEngine (nm_stopNode orphan_manager ''a'')) ''b'' = [2]
   \<and> live_units (audioEngine (removeNode orphan_manager ''b'')) ''b'' = [2]"
  by (simp add: orphan_manager_def linked_manager_nodes run_defs removeNode_def
        disconnectNodes_def)


lemma playing_manager_units:
  "units_tracked (audioEngine playing_manager)" "units_owned (audioEngine playing_manager)"
  "units_tracked (audioEngine linked_manager)" "units_owned (audioEngine linked_manager)"
  "live_units (audioEngine linked_manager) ''b'' = []"
  "live_units (audioEngine playing_manager) ''b'' = [1]"
  "units_owned engine0" "live_units engine0 ''b'' = []"
proof -
  show t: "units_tracked (audioEngine linked_manager)"
    by (simp add: linked_manager_nodes units_tracked_engine0)
  show o: "units_owned (audioEngine linked_manager)"
    by (simp add: linked_manager_nodes units_owned_def engine0_def initialize_def
          new_AudioEngine_def)
  show "units_tracked (audioEngine playing_manager)"
    unfolding playing_manager_def using t by (rule units_tracked_nm_playNode)
  show "units_owned (audioEngine playing_manager)"
    unfolding playing_manager_def using o by (rule units_owned_nm_playNode)
  show "live_units (audioEngine linked_manager) ''b'' = []"
    by (simp add: linked_manager_nodes live_units_def engine0_fields)
  show "units_owned engine0"
    by (simp add: units_owned_def engine0_def initialize_def new_AudioEngine_def)
  show "live_units engine0 ''b'' = []"
    by (simp add: live_units_def engine0_fields)
  show "live_units (audioEngine playing_manager) ''b'' = [1]"
    by (simp add: playing_manager_def linked_manager_nodes run_defs)
qed

theorem group_play_and_stop_witness:
  "play_effect True clip 0 (nm_playNode linked_manager ''a'' True) ''b''
   \<and> live_units (audioEngine (nm_playNode linked_manager ''a'' True)) ''b'' \<noteq> []
   \<and> live_units (audioEngine (nm_playNode playing_manager ''a'' True)) ''b'' = [1]
   \<and> nodeStates (audioEngine (nm_playNode playing_manager ''a'' True)) ''b''
       = nodeStates (audioEngine playing_manager) ''b''
   \<and> live_units (audioEngine (nm_stopNode playing_manager ''a'')) ''b'' = []
   \<and> stopped (sources (audioEngine (nm_stopNode playing_manager ''a'')) ! 1)"
  using group_play_and_stop
          [where nm = linked_manager and a = "''a''" and b = "''b''" and lp = True
             and bufa = clip and bufb = clip
             and ctx = "\<lparr>currentTime = 0, ctx_state = Running\<rparr>" and master = 0
             and na = "\<lparr>node_ident = ''a'', pos_x = 0, pos_y = 0, audioBuffer = Some clip,
                        fileName = ''a.wav'', node_isPlaying = False, connections = [''b''],
                        color = ''#ffffff''\<rparr>"
             and nb = "\<lparr>node_ident = ''b'', pos_x = 10, pos_y = 10, audioBuffer = Some clip,
                        fileName = ''b.wav'', node_isPlaying = False, connections = [''a''],
                        color = ''#e5e7eb''\<rparr>"]
        group_play_and_stop
          [where nm = playing_manager and a = "''a''" and b = "''b''" and lp = True
             and bufa = clip and bufb = clip
             and ctx = "\<lparr>currentTime = 0, ctx_state = Running\<rparr>" and master = 0
             and na = "\<lparr>node_ident = ''a'', pos_x = 0, pos_y = 0, audioBuffer = Some clip,
                        fileName = ''a.wav'', node_isPlaying = True, connections = [''b''],
                        color = ''#ffffff''\<rparr>"
             and nb = "\<lparr>node_ident = ''b'', pos_x = 10, pos_y = 10, audioBuffer = Some clip,
                        fileName = ''b.wav'', node_isPlaying = True, connections = [''a''],
                        color = ''#e5e7eb''\<rparr>"]
  by (simp add: linked_manager_nodes engine0_fields playing_manager_facts
        playing_manager_units units_tracked_engine0)

text \<open>
  Claim C5. In a manager whose links are symmetric, removing an existing node first
  runs the group stop on it, then removes its links on both sides and deletes its record.
  The engine is left as that stop leaves it: no unit is registered for the node, its state
  record is neither playing nor paused, the unit that was registered is stopped, and in an
  engine where every sounding unit is registered the node has no sounding unit left.
  Afterwards the node is gone, every other node is still there, no remaining node lists
  the removed id, and the links are symmetric again.
\<close>

theorem remove_node_no_dangling:
  assumes "links_symmetric nm" and "nodes nm n = Some node"
  shows "nodes (removeNode nm n) n = None
     \<and> (\<forall>r nd. nodes (removeNode nm n) r = Some nd \<longrightarrow> n \<notin> set (connections nd))
     \<and> (\<forall>r. r \<noteq> n \<longrightarrow> (nodes (removeNode nm n) r = None \<longleftrightarrow> nodes nm r = None))
     \<and> links_symmetric (removeNode nm n)
     \<and> audioEngine (removeNode nm n) = audioEngine (nm_stopNode nm n)
     \<and> activeNodes (audioEngine (removeNode nm n)) n = None
     \<and> (\<forall>st. nodeStates (audioEngine (removeNode nm n)) n = Some st
            \<longrightarrow> \<not> isPlaying st \<and> \<not> isPaused st)
     \<and> (\<forall>s. activeNodes (audioEngine nm) n = Some s \<and> s < length (sources (audioEngine nm))
            \<longrightarrow> stopped (sources (audioEngine (removeNode nm n)) ! s))
     \<and> (units_tracked (audioEngine nm) \<longrightarrow>
           live_units (audioEngine (removeNode nm n)) n = []
           \<and> units_tracked (audioEngine (removeNode nm n)))"
proof (intro conjI)
  have cs: "connections_of nm n = Some (connections node)"
    using assms(2) by (simp add: connections_of_def)
  show "nodes (removeNode nm n) n = None"
    using assms(2) by (simp add: removeNode_def Let_def)
  show "\<forall>r nd. nodes (removeNode nm n) r = Some nd \<longrightarrow> n \<notin> set (connections nd)"
    using assms by (rule removeNode_unlinks)
  show "\<forall>r. r \<noteq> n \<longrightarrow> (nodes (removeNode nm n) r = None \<longleftrightarrow> nodes nm r = None)"
    using connections_of_removeNode [OF cs]
    by (simp add: connections_of_None [symmetric])
  show "links_symmetric (removeNode nm n)"
    using assms by (rule removeNode_links_symmetric)
  show e: "audioEngine (removeNode nm n) = audioEngine (nm_stopNode nm n)"
    using assms(2) by (rule removeNode_engine)
  have "stop_effect (nm_stopNode nm n) n"
    by (rule nm_stopNode_effect)
  then show "activeNodes (audioEngine (removeNode nm n)) n = None"
    and "\<forall>st. nodeStates (audioEngine (removeNode nm n)) n = Some st
            \<longrightarrow> \<not> isPlaying st \<and> \<not> isPaused st"
    by (auto simp: e stop_effect_def)
  show "\<forall>s. activeNodes (audioEngine nm) n = Some s \<and> s < length (sources (audioEngine nm))
            \<longrightarrow> stopped (sources (audioEngine (removeNode nm n)) ! s)"
    by (auto simp: e nm_stopNode_unfold stopNode_stops_registered intro!: stop_all_stopped_mono)
  show "units_tracked (audioEngine nm) \<longrightarrow>
           live_units (audioEngine (removeNode nm n)) n = []
           \<and> units_tracked (audioEngine (removeNode nm n))"
    using removeNode_silences [OF _ assms(2)] units_tracked_nm_stopNode [of nm n]
    by (simp add: e)
qed

theorem remove_node_no_dangling_witness:
  "nodes playing_manager ''a'' \<noteq> None
   \<and> nodes (removeNode playing_manager ''a'') ''a'' = None
   \<and> \<not> (\<exists>r nd. nodes (removeNode playing_manager ''a'') r = Some nd
            \<and> ''a'' \<in> set (connections nd))
   \<and> nodes (removeNode playing_manager ''a'') ''b'' \<noteq> None
   \<and> stopped (sources (audioEngine (removeNode playing_manager ''a'')) ! 0)
   \<and> live_units (audioEngine (removeNode playing_manager ''a'')) ''a'' = []"
proof -
  have sym: "links_symmetric playing_manager"
    unfolding playing_manager_def using linked_manager_links(1) by (rule nm_playNode_links)
  have a0: "activeNodes (audioEngine playing_manager) ''a'' = Some 0"
    by (simp add: playing_manager_def nm_playNode_def linked_manager_nodes
        play_connected_def updateNodeState_def playAudioBuffer_def stopNode_def engine0_def
        initialize_def new_AudioEngine_def Let_def)
  have l0: "(0::nat) < length (sources (audioEngine playing_manager))"
    by (simp add: playing_manager_facts)
  have ne: "''b'' \<noteq> ''a''" by simp
  have pa: "nodes playing_manager ''a'' \<noteq> None" "nodes playing_manager ''b'' \<noteq> None"
    by (simp_all add: playing_manager_facts)
  note t = remove_node_no_dangling [OF sym playing_manager_facts(1)]
  have c1: "nodes (removeNode playing_manager ''a'') ''a'' = None"
    using t by (rule conjunct1)
  have c2: "\<forall>r nd. nodes (removeNode playing_manager ''a'') r = Some nd
         \<longrightarrow> ''a'' \<notin> set (connections nd)"
    using t by (elim conjE)
  have c3: "\<forall>r. r \<noteq> ''a'' \<longrightarrow>
      (nodes (removeNode playing_manager ''a'') r = None \<longleftrightarrow> nodes playing_manager r = None)"
    using t by (elim conjE)
  have c8: "\<forall>s. activeNodes (audioEngine playing_manager) ''a'' = Some s
                \<and> s < length (sources (audioEngine playing_manager))
            \<longrightarrow> stopped (sources (audioEngine (removeNode playing_manager ''a'')) ! s)"
    using t by (elim conjE)
  have c9: "units_tracked (audioEngine playing_manager) \<longrightarrow>
           live_units (audioEngine (removeNode playing_manager ''a'')) ''a'' = []
           \<and> units_tracked (audioEngine (removeNode playing_manager ''a''))"
    using t by (elim conjE)
  have "nodes (removeNode playing_manager ''a'') ''b'' \<noteq> None"
    using c3 [rule_format, OF ne] pa(2) by simp
  moreover have "stopped (sources (audioEngine (removeNode playing_manager ''a'')) ! 0)"
    using c8 [rule_format, of 0] a0 l0 by simp
  moreover have "live_units (audioEngine (removeNode playing_manager ''a'')) ''a'' = []"
    using c9 playing_manager_units(1) by simp
  ultimately show ?thesis
    using c1 c2 pa(1) by simp
qed

subsection \<open>Live playback units of the individual playback manager\<close>

text \<open>
  The handler of the individual playback manager calls \<^verbatim>\<open>stopNode\<close>, which stops the
  unit the node's state record names at that moment. From a manager whose nodes were
  initialised before they were played, whatever the order of calls, ticks and \<^verbatim>\<open>ended\<close>
  events, a node never has two sounding units.
\<close>

lemma ipm_units_trackedD:
  "ipm_units_tracked m \<Longrightarrow> s < length (ipm_sources m) \<Longrightarrow> sounding (ipm_sources m ! s) \<Longrightarrow>
   onended (ipm_sources m ! s) = Some n \<Longrightarrow>
   \<exists>st. ipm_nodeStates m n = Some st \<and> audioSource st = Some s"
  unfolding ipm_units_tracked_def by blast

lemma ipm_stopNode_sources:
  "ipm_nodeStates m n = Some st \<Longrightarrow>
   ipm_sources (ipm_stopNode m n) =
     (case audioSource st of Some s \<Rightarrow> stop_source (ipm_sources m) s | None \<Rightarrow> ipm_sources m)"
  by (simp add: ipm_stopNode_def stop_and_untrack_def Let_def split: option.splits)

lemma ipm_stopNode_absent: "ipm_nodeStates m n = None \<Longrightarrow> ipm_stopNode m n = m"
  by (simp add: ipm_stopNode_def)

lemma ipm_units_tracked_stop_source:
  "ipm_units_tracked m \<Longrightarrow> ipm_units_tracked (m\<lparr>ipm_sources := stop_source (ipm_sources m) c\<rparr>)"
  unfolding ipm_units_tracked_def
  by (simp add: sounding_stop_source stop_source_fields)

lemma ipm_units_tracked_stopNode:
  assumes "ipm_units_tracked m"
  shows "ipm_units_tracked (ipm_stopNode m n)"
proof (cases "ipm_nodeStates m n")
  case None
  then show ?thesis using assms by (simp add: ipm_stopNode_absent)
next
  case (Some st)
  show ?thesis
    unfolding ipm_units_tracked_def
  proof (intro allI impI)
    fix s k
    assume a: "s < length (ipm_sources (ipm_stopNode m n))"
      "sounding (ipm_sources (ipm_stopNode m n) ! s)"
      "onended (ipm_sources (ipm_stopNode m n) ! s) = Some k"
    then have old: "s < length (ipm_sources m)" "sounding (ipm_sources m ! s)"
        "onended (ipm_sources m ! s) = Some k" "audioSource st \<noteq> Some s"
      by (auto simp: ipm_stopNode_sources [OF Some] sounding_stop_source stop_source_fields
            split: option.splits)
    from ipm_units_trackedD [OF assms old(1-3)] obtain st' where
      st': "ipm_nodeStates m k = Some st'" "audioSource st' = Some s" by blast
    with old(4) Some have "k \<noteq> n" by auto
    with st' show "\<exists>st. ipm_nodeStates (ipm_stopNode m n) k = Some st \<and> audioSource st = Some s"
      by (simp add: ipm_stopNode_state [OF Some])
  qed
qed

lemma ipm_stopNode_silent:
  assumes "ipm_units_tracked m" and "ipm_nodeStates m n = Some st"
    and "s < length (ipm_sources m)" and "onended (ipm_sources m ! s) = Some n"
  shows "\<not> sounding (ipm_sources (ipm_stopNode m n) ! s)"
proof
  assume a: "sounding (ipm_sources (ipm_stopNode m n) ! s)"
  have t: "ipm_units_tracked (ipm_stopNode m n)"
    using assms(1) by (rule ipm_units_tracked_stopNode)
  have "onended (ipm_sources (ipm_stopNode m n) ! s) = Some n"
    using assms(2,4) by (simp add: ipm_stopNode_sources stop_source_fields split: option.splits)
  from ipm_units_trackedD [OF t _ a this] assms(3)
  obtain st' where "ipm_nodeStates (ipm_stopNode m n) n = Some st'" "audioSource st' = Some s"
    by auto
  then show False by (auto simp: ipm_stopNode_state [OF assms(2)])
qed

lemma ipm_units_tracked_pauseNode:
  assumes "ipm_units_tracked m"
  shows "ipm_units_tracked (ipm_pauseNode m n)"
proof (cases "\<exists>st. ipm_nodeStates m n = Some st \<and> ind_isPlaying st")
  case False
  then have "ipm_pauseNode m n = m"
    by (auto simp: ipm_pauseNode_def split: option.splits)
  then show ?thesis using assms by simp
next
  case True
  then obtain st where st: "ipm_nodeStates m n = Some st" "ind_isPlaying st" by blast
  have src: "ipm_sources (ipm_pauseNode m n) =
      (case audioSource st of Some s \<Rightarrow> stop_source (ipm_sources m) s | None \<Rightarrow> ipm_sources m)"
    and sts: "\<And>k. k \<noteq> n \<Longrightarrow> ipm_nodeStates (ipm_pauseNode m n) k = ipm_nodeStates m k"
    using st by (simp_all add: ipm_pauseNode_def stop_and_untrack_def Let_def split: option.splits)
  show ?thesis
    unfolding ipm_units_tracked_def
  proof (intro allI impI)
    fix s k
    assume a: "s < length (ipm_sources (ipm_pauseNode m n))"
      "sounding (ipm_sources (ipm_pauseNode m n) ! s)"
      "onended (ipm_sources (ipm_pauseNode m n) ! s) = Some k"
    then have old: "s < length (ipm_sources m)" "sounding (ipm_sources m ! s)"
        "onended (ipm_sources m ! s) = Some k" "audioSource st \<noteq> Some s"
      by (auto simp: src sounding_stop_source stop_source_fields split: option.splits)
    from ipm_units_trackedD [OF assms old(1-3)] obtain st' where
      st': "ipm_nodeStates m k = Some st'" "audioSource st' = Some s" by blast
    with old(4) st have "k \<noteq> n" by auto
    with st' show "\<exists>st. ipm_nodeStates (ipm_pauseNode m n) k = Some st \<and> audioSource st = Some s"
      by (simp add: sts)
  qed
qed

lemma ipm_units_tracked_playNode:
  assumes "ipm_units_tracked m"
  shows "ipm_units_tracked (after_play (ipm_playNode m n buf))"
proof (cases "ipm_nodeStates m n")
  case None
  then show ?thesis using assms by (simp add: ipm_playNode_def)
next
  case (Some st)
  let ?m1 = "ipm_stopNode m n"
  let ?m' = "after_play (ipm_playNode m n buf)"
  have t1: "ipm_units_tracked ?m1"
    using assms by (rule ipm_units_tracked_stopNode)
  have len1: "length (ipm_sources ?m1) = length (ipm_sources m)" by simp
  have src: "\<exists>new. ipm_sources ?m' = ipm_sources ?m1 @ [new]
              \<and> (sounding new \<longrightarrow> onended new = Some n
                    \<and> (\<exists>st'. ipm_nodeStates ?m' n = Some st'
                           \<and> audioSource st' = Some (length (ipm_sources m))))"
    and sts: "\<And>k. k \<noteq> n \<Longrightarrow> ipm_nodeStates ?m' k = ipm_nodeStates m k"
    using Some
    by (simp_all add: ipm_playNode_def Let_def startTimeTracking_def sounding_def
          ipm_stopNode_state)
  from src obtain new where new: "ipm_sources ?m' = ipm_sources ?m1 @ [new]"
    "sounding new \<Longrightarrow> onended new = Some n"
    "sounding new \<Longrightarrow> \<exists>st'. ipm_nodeStates ?m' n = Some st'
                           \<and> audioSource st' = Some (length (ipm_sources m))"
    by blast
  show ?thesis
    unfolding ipm_units_tracked_def
  proof (intro allI impI)
    fix s k
    assume a: "s < length (ipm_sources ?m')" "sounding (ipm_sources ?m' ! s)"
      "onended (ipm_sources ?m' ! s) = Some k"
    show "\<exists>st. ipm_nodeStates ?m' k = Some st \<and> audioSource st = Some s"
    proof (cases "s < length (ipm_sources m)")
      case True
      then have old: "s < length (ipm_sources ?m1)" "sounding (ipm_sources ?m1 ! s)"
          "onended (ipm_sources ?m1 ! s) = Some k"
        using a by (simp_all add: new(1) nth_append)
      have "k \<noteq> n"
      proof
        assume "k = n"
        then have "onended (ipm_sources m ! s) = Some n"
          using old(3) Some by (simp add: ipm_stopNode_sources stop_source_fields split: option.splits)
        from ipm_stopNode_silent [OF assms Some True this] old(2) show False by simp
      qed
      from ipm_units_trackedD [OF t1 old] obtain st' where
        "ipm_nodeStates ?m1 k = Some st'" "audioSource st' = Some s" by blast
      with \<open>k \<noteq> n\<close> show ?thesis
        by (simp add: sts ipm_stopNode_state [OF Some])
    next
      case False
      then have s: "s = length (ipm_sources m)" using a(1) by (simp add: new(1))
      then have "ipm_sources ?m' ! s = new" by (simp add: new(1) nth_append)
      with a new(2,3) s show ?thesis by auto
    qed
  qed
qed

lemma ipm_units_tracked_tick:
  "ipm_units_tracked m \<Longrightarrow> ipm_units_tracked (interval_tick m t)"
  unfolding ipm_units_tracked_def
  by (auto simp: interval_tick_def Let_def split: option.splits)

lemma ipm_units_tracked_clock:
  "ipm_units_tracked m \<Longrightarrow> ipm_units_tracked (ipm_clock m t)"
  by (simp add: ipm_units_tracked_def ipm_clock_def)

lemma ipm_units_tracked_ended:
  "ipm_units_tracked m \<Longrightarrow> ipm_units_tracked (ipm_ended_event m s)"
  by (auto simp: ipm_ended_event_def Let_def ipm_onended_handler_def
        intro: ipm_units_tracked_stopNode ipm_units_tracked_stop_source split: option.splits)

lemma ipm_units_tracked_toggle:
  "ipm_units_tracked m \<Longrightarrow> ipm_units_tracked (toggleNode m n buf)"
  by (auto simp: toggleNode_def intro: ipm_units_tracked_pauseNode ipm_units_tracked_playNode
        split: option.splits)

lemma ipm_units_tracked_step:
  "ipm_units_tracked m \<Longrightarrow> ipm_units_tracked (ipm_step m ev)"
  by (cases ev)
     (simp_all add: ipm_units_tracked_playNode ipm_units_tracked_pauseNode
        ipm_units_tracked_stopNode ipm_units_tracked_toggle ipm_units_tracked_tick
        ipm_units_tracked_clock ipm_units_tracked_ended)

lemma ipm_units_tracked_run:
  "ipm_units_tracked m \<Longrightarrow> ipm_units_tracked (ipm_run m evs)"
  unfolding ipm_run_def
  by (induction evs arbitrary: m) (simp_all add: ipm_units_tracked_step)

lemma ipm_one_live:
  assumes "ipm_units_tracked m"
  shows "length (ipm_live_units m n) \<le> 1"
proof (cases "ipm_nodeStates m n")
  case None
  have "ipm_live_units m n = []"
    unfolding ipm_live_units_def using ipm_units_trackedD [OF assms, of _ n] None
    by (auto simp: filter_empty_conv)
  then show ?thesis by simp
next
  case (Some st)
  show ?thesis
  proof (cases "audioSource st")
    case None
    have "ipm_live_units m n = []"
      unfolding ipm_live_units_def using ipm_units_trackedD [OF assms, of _ n] None Some
      by (auto simp: filter_empty_conv)
    then show ?thesis by simp
  next
    case (Some s0)
    show ?thesis
    proof (rule single_valued_list [where c = s0])
      show "distinct (ipm_live_units m n)" by (simp add: ipm_live_units_def)
      fix x assume "x \<in> set (ipm_live_units m n)"
      then show "x = s0"
        using ipm_units_trackedD [OF assms, of x n] Some \<open>ipm_nodeStates m n = Some st\<close>
        by (auto simp: ipm_live_units_def)
    qed
  qed
qed

lemma ipm0_tracked: "ipm_units_tracked ipm0"
  by (simp add: ipm_units_tracked_def ipm0_def initializeNode_def
        new_IndividualPlaybackManager_def)

lemma ipm_run_one_live:
  "ipm_units_tracked m \<Longrightarrow> length (ipm_live_units (ipm_run m evs) n) \<le> 1"
  by (intro ipm_one_live ipm_units_tracked_run)

lemma ipm0_run_one_live: "length (ipm_live_units (ipm_run ipm0 evs) n) \<le> 1"
  using ipm0_tracked by (rule ipm_run_one_live)

text \<open>
  A late \<^verbatim>\<open>ended\<close> event here stops the unit that replaced the ended one: the node
  falls silent, it does not double.
\<close>

lemma ipm_stale_ended_event_silences:
  "ipm_live_units (ipm_run ipm0 [IPlay ''a'' clip, IPlay ''a'' clip]) ''a'' = [1]
   \<and> ipm_live_units (ipm_run ipm0 [IPlay ''a'' clip, IPlay ''a'' clip, IEnded 0]) ''a'' = []"
  by (simp add: ipm_live_units_def ipm_run_def ipm0_def initializeNode_def
        new_IndividualPlaybackManager_def clip_def ipm_playNode_def ipm_stopNode_def
        stop_and_untrack_def startTimeTracking_def clear_interval_def stop_source_def
        ipm_ended_event_def ipm_onended_handler_def sounding_def Let_def upt_rec)

end
